theory Spec2Isabelle
  imports
    Complex_Main
    "HOL-Library.AList"
    "HOL-Library.List_Lexorder"
    "HOL-Library.Char_ord"
begin

section \<open>Python values, errors and dictionaries\<close>

text \<open>
  The knowledge graph of FileMap (\<^verbatim>\<open>filemap/graph/knowledge_graph.py\<close>) is built
  on a \<^verbatim>\<open>networkx.Graph\<close> from the tags and files of a \<^verbatim>\<open>DataStore\<close>.
  Python dictionaries keep insertion order, so a dictionary is an association list whose
  keys are distinct; \<^const>\<open>map_of\<close> reads it and \<^const>\<open>AList.update\<close> writes it (the
  value is replaced in place when the key is present, the pair is appended otherwise).
  Python's \<^verbatim>\<open>float\<close> is modelled by exact rationals: the quotients of the source
  are quotients of small integers, and the literal \<^verbatim>\<open>0.3\<close> is the rational
  \<open>3/10\<close>. Strings are compared lexicographically by character code, as Python does.
\<close>

datatype py_error = KeyError | NetworkXError | TypeError | ValueError
  \<comment> \<open>\<^verbatim>\<open>ValueError\<close> is Python's signal for an invalid argument; no statement of the
      source raises it\<close>

datatype attr_val = AStr string | AInt int | AFloat rat

type_synonym ('k, 'v) dict = "('k \<times> 'v) list"

type_synonym attrs = "(string, attr_val) dict"

definition dict_update :: "('k, 'v) dict \<Rightarrow> ('k, 'v) dict \<Rightarrow> ('k, 'v) dict" where
  \<comment> \<open>\<^verbatim>\<open>d.update(other)\<close>\<close>
  "dict_update d other = fold (\<lambda>kv acc. AList.update (fst kv) (snd kv) acc) other d"

section \<open>The entities of \<^verbatim>\<open>filemap/core/models.py\<close> and the data store\<close>

text \<open>
  Only the fields the graph code reads are kept. \<^verbatim>\<open>Tag.name\<close> is \<open>tag_name\<close>,
  \<^verbatim>\<open>File.name\<close> is \<open>file_name\<close>, \<^verbatim>\<open>File.size\<close> is \<open>file_size\<close>; the two
  dictionaries \<^verbatim>\<open>DataStore.tags\<close> and \<^verbatim>\<open>DataStore.files\<close> are \<open>store_tags\<close>
  and \<open>store_files\<close>.
\<close>

record Tag =
  tag_id :: string
  tag_name :: string
  category :: string
  usage_count :: int

record File =
  file_id :: string
  file_name :: string
  file_size :: int
  tags :: "string list"

record DataStore =
  store_tags :: "(string, Tag) dict"
  store_files :: "(string, File) dict"

definition get_tag :: "DataStore \<Rightarrow> string \<Rightarrow> Tag option" where
  "get_tag ds tid = map_of (store_tags ds) tid"

definition get_file :: "DataStore \<Rightarrow> string \<Rightarrow> File option" where
  "get_file ds fid = map_of (store_files ds) fid"

definition wf_store :: "DataStore \<Rightarrow> bool" where
  \<comment> \<open>What \<^verbatim>\<open>add_tag\<close>, \<^verbatim>\<open>add_file\<close> and the loaders of the store maintain: the
      dictionaries are keyed by the entity's own id, and a usage count is a count.\<close>
  "wf_store ds \<longleftrightarrow>
     distinct (map fst (store_tags ds)) \<and> distinct (map fst (store_files ds)) \<and>
     list_all (\<lambda>kv. tag_id (snd kv) = fst kv \<and> 0 \<le> usage_count (snd kv)) (store_tags ds) \<and>
     list_all (\<lambda>kv. file_id (snd kv) = fst kv) (store_files ds)"

section \<open>The part of \<^verbatim>\<open>networkx.Graph\<close> the source uses\<close>

text \<open>
  The library is not part of the repository; its operations are modelled as its
  documentation and source give them. A graph is its two dictionaries: \<^verbatim>\<open>_node\<close>
  (node to attribute dictionary) and \<^verbatim>\<open>_adj\<close> (node to neighbour to edge
  attribute dictionary). An undirected edge \<open>u - v\<close> is stored under both
  \<open>_adj[u][v]\<close> and \<open>_adj[v][u]\<close>.
\<close>

record Graph =
  g_node :: "(string, attrs) dict"
  g_adj :: "(string, (string, attrs) dict) dict"

definition nx_empty :: Graph where
  "nx_empty = \<lparr>g_node = [], g_adj = []\<rparr>"

definition nx_clear :: "Graph \<Rightarrow> Graph" where
  "nx_clear g = nx_empty"

definition nx_has_node :: "Graph \<Rightarrow> string \<Rightarrow> bool" where
  "nx_has_node g n \<longleftrightarrow> map_of (g_node g) n \<noteq> None"

definition adj_of :: "Graph \<Rightarrow> string \<Rightarrow> (string, attrs) dict" where
  \<comment> \<open>\<^verbatim>\<open>_adj[u]\<close> inside \<^verbatim>\<open>add_edge\<close>, read after \<open>u\<close> has been made a node\<close>
  "adj_of g u = (case map_of (g_adj g) u of None \<Rightarrow> [] | Some nbrs \<Rightarrow> nbrs)"

definition nx_add_node :: "Graph \<Rightarrow> string \<Rightarrow> attrs \<Rightarrow> Graph" where
  "nx_add_node g n attr =
     (case map_of (g_node g) n of
        None \<Rightarrow> \<lparr>g_node = AList.update n (dict_update [] attr) (g_node g),
                 g_adj = AList.update n [] (g_adj g)\<rparr>
      | Some old \<Rightarrow> g\<lparr>g_node := AList.update n (dict_update old attr) (g_node g)\<rparr>)"

definition ensure_node :: "Graph \<Rightarrow> string \<Rightarrow> Graph" where
  \<comment> \<open>the \<^verbatim>\<open>if u not in self._node\<close> block of \<^verbatim>\<open>add_edge\<close>\<close>
  "ensure_node g u =
     (if nx_has_node g u then g
      else \<lparr>g_node = AList.update u [] (g_node g), g_adj = AList.update u [] (g_adj g)\<rparr>)"

definition nx_add_edge :: "Graph \<Rightarrow> string \<Rightarrow> string \<Rightarrow> attrs \<Rightarrow> Graph" where
  "nx_add_edge g u v attr =
     (let g1 = ensure_node g u;
          g2 = ensure_node g1 v;
          datadict = dict_update (case map_of (adj_of g2 u) v of None \<Rightarrow> [] | Some d \<Rightarrow> d) attr;
          adj1 = AList.update u (AList.update v datadict (adj_of g2 u)) (g_adj g2);
          g3 = g2\<lparr>g_adj := adj1\<rparr>;
          adj2 = AList.update v (AList.update u datadict (adj_of g3 v)) (g_adj g3)
      in g3\<lparr>g_adj := adj2\<rparr>)"

definition nx_has_edge :: "Graph \<Rightarrow> string \<Rightarrow> string \<Rightarrow> bool" where
  "nx_has_edge g u v \<longleftrightarrow>
     (case map_of (g_adj g) u of None \<Rightarrow> False | Some nbrs \<Rightarrow> map_of nbrs v \<noteq> None)"

definition nx_get_edge_data :: "Graph \<Rightarrow> string \<Rightarrow> string \<Rightarrow> attrs option" where
  \<comment> \<open>\<^verbatim>\<open>get_edge_data(u, v)\<close>: \<^verbatim>\<open>None\<close> when there is no such edge\<close>
  "nx_get_edge_data g u v =
     (case map_of (g_adj g) u of None \<Rightarrow> None | Some nbrs \<Rightarrow> map_of nbrs v)"

section \<open>\<^verbatim>\<open>KnowledgeGraph.generate\<close> and its three passes\<close>

subsection \<open>\<^verbatim>\<open>_build_tag_graph\<close>\<close>

definition tag_node_attrs :: "Tag \<Rightarrow> attrs" where
  "tag_node_attrs tag =
     [(''type'', AStr ''tag''), (''name'', AStr (tag_name tag)),
      (''category'', AStr (category tag)), (''usage_count'', AInt (usage_count tag))]"

definition add_tag_nodes :: "DataStore \<Rightarrow> Graph \<Rightarrow> Graph" where
  "add_tag_nodes ds g =
     fold (\<lambda>tag acc. nx_add_node acc (tag_id tag) (tag_node_attrs tag)) (map snd (store_tags ds)) g"

definition sorted_pair :: "string \<Rightarrow> string \<Rightarrow> string \<times> string" where
  \<comment> \<open>\<^verbatim>\<open>tuple(sorted([tag1_id, tag2_id]))\<close>\<close>
  "sorted_pair a b = (if b < a then (b, a) else (a, b))"

type_synonym counter = "(string \<times> string, int) dict"

definition incr :: "counter \<Rightarrow> string \<times> string \<Rightarrow> counter" where
  \<comment> \<open>\<^verbatim>\<open>tag_cooccurrence[pair] += 1\<close> on a \<^verbatim>\<open>defaultdict(int)\<close>\<close>
  "incr c pair = AList.update pair ((case map_of c pair of None \<Rightarrow> 0 | Some n \<Rightarrow> n) + 1) c"

fun count_tag_pairs :: "string list \<Rightarrow> counter \<Rightarrow> counter" where
  \<comment> \<open>the nested iteration over one file's tag list: position \<open>i\<close> against the positions after it\<close>
  "count_tag_pairs [] c = c"
| "count_tag_pairs (tag1_id # rest) c =
     count_tag_pairs rest (fold (\<lambda>tag2_id acc. incr acc (sorted_pair tag1_id tag2_id)) rest c)"

definition tag_cooccurrence :: "DataStore \<Rightarrow> counter" where
  "tag_cooccurrence ds =
     fold (\<lambda>file acc. count_tag_pairs (tags file) acc) (map snd (store_files ds)) []"

definition strength_of :: "int \<Rightarrow> Tag \<Rightarrow> Tag \<Rightarrow> attr_val" where
  \<comment> \<open>\<^verbatim>\<open>count / max_usage if max_usage > 0 else 0\<close>\<close>
  "strength_of count tag1 tag2 =
     (let max_usage = max (usage_count tag1) (usage_count tag2)
      in if max_usage > 0 then AFloat (of_int count / of_int max_usage) else AInt 0)"

definition cooccurrence_attrs :: "int \<Rightarrow> Tag \<Rightarrow> Tag \<Rightarrow> attrs" where
  "cooccurrence_attrs count tag1 tag2 =
     [(''weight'', AInt count), (''strength'', strength_of count tag1 tag2),
      (''type'', AStr ''cooccurrence'')]"

definition add_cooccurrence_edge :: "DataStore \<Rightarrow> (string \<times> string) \<times> int \<Rightarrow> Graph \<Rightarrow> Graph" where
  \<comment> \<open>one turn of the loop over \<^verbatim>\<open>tag_cooccurrence.items()\<close>\<close>
  "add_cooccurrence_edge ds item g =
     (let tag1_id = fst (fst item); tag2_id = snd (fst item); count = snd item
      in if count \<ge> 2 then
           (case get_tag ds tag1_id of
              None \<Rightarrow> g
            | Some tag1 \<Rightarrow>
                (case get_tag ds tag2_id of
                   None \<Rightarrow> g
                 | Some tag2 \<Rightarrow> nx_add_edge g tag1_id tag2_id (cooccurrence_attrs count tag1 tag2)))
         else g)"

definition build_tag_graph :: "DataStore \<Rightarrow> Graph \<Rightarrow> Graph" where
  "build_tag_graph ds g = fold (add_cooccurrence_edge ds) (tag_cooccurrence ds) (add_tag_nodes ds g)"

subsection \<open>\<^verbatim>\<open>_build_file_graph\<close> and \<^verbatim>\<open>_calculate_tag_similarity\<close>\<close>

definition file_node_attrs :: "File \<Rightarrow> attrs" where
  "file_node_attrs file =
     [(''type'', AStr ''file''), (''name'', AStr (file_name file)),
      (''size'', AInt (file_size file)), (''tag_count'', AInt (int (length (tags file))))]"

definition add_file_nodes :: "DataStore \<Rightarrow> Graph \<Rightarrow> Graph" where
  "add_file_nodes ds g =
     fold (\<lambda>file acc. nx_add_node acc (file_id file) (file_node_attrs file)) (map snd (store_files ds)) g"

definition calculate_tag_similarity :: "File \<Rightarrow> File \<Rightarrow> rat" where
  "calculate_tag_similarity file1 file2 =
     (if tags file1 = [] \<or> tags file2 = [] then 0
      else
        (let tags1 = set (tags file1); tags2 = set (tags file2);
             intersection = card (tags1 \<inter> tags2);
             union = card (tags1 \<union> tags2)
         in if union > 0 then of_nat intersection / of_nat union else 0))"

definition similarity_attrs :: "rat \<Rightarrow> attrs" where
  "similarity_attrs similarity = [(''weight'', AFloat similarity), (''type'', AStr ''similarity'')]"

definition add_similarity_edge :: "File \<Rightarrow> File \<Rightarrow> Graph \<Rightarrow> Graph" where
  "add_similarity_edge file1 file2 g =
     (let similarity = calculate_tag_similarity file1 file2
      in if similarity > 3 / 10
         then nx_add_edge g (file_id file1) (file_id file2) (similarity_attrs similarity)
         else g)"

fun add_similarity_edges :: "File list \<Rightarrow> Graph \<Rightarrow> Graph" where
  \<comment> \<open>\<^verbatim>\<open>for i, file1 in enumerate(files): for file2 in files[i + 1:]\<close>\<close>
  "add_similarity_edges [] g = g"
| "add_similarity_edges (file1 # rest) g =
     add_similarity_edges rest (fold (add_similarity_edge file1) rest g)"

definition build_file_graph :: "DataStore \<Rightarrow> Graph \<Rightarrow> Graph" where
  "build_file_graph ds g = add_similarity_edges (map snd (store_files ds)) (add_file_nodes ds g)"

subsection \<open>\<^verbatim>\<open>_link_tags_and_files\<close>\<close>

definition link_file_tag :: "File \<Rightarrow> string \<Rightarrow> Graph \<Rightarrow> Graph" where
  "link_file_tag file t g =
     (if nx_has_node g t \<and> nx_has_node g (file_id file)
      then nx_add_edge g (file_id file) t [(''type'', AStr ''tagged'')]
      else g)"

definition link_tags_and_files :: "DataStore \<Rightarrow> Graph \<Rightarrow> Graph" where
  "link_tags_and_files ds g =
     fold (\<lambda>file acc. fold (link_file_tag file) (tags file) acc) (map snd (store_files ds)) g"

subsection \<open>\<^verbatim>\<open>generate\<close>\<close>

text \<open>
  No statement of \<^verbatim>\<open>generate\<close> raises: the mode is only compared with the three known
  strings, the division is guarded, and \<^verbatim>\<open>add_node\<close> and \<^verbatim>\<open>add_edge\<close> accept any
  string. The result is therefore always a normal return, \<open>Inr\<close> of the new graph.
\<close>

definition generate :: "DataStore \<Rightarrow> string \<Rightarrow> Graph \<Rightarrow> py_error + Graph" where
  "generate ds mode g =
     (let g0 = nx_clear g;
          g1 = (if mode \<in> set [''tags'', ''full''] then build_tag_graph ds g0 else g0);
          g2 = (if mode \<in> set [''files'', ''full''] then build_file_graph ds g1 else g1);
          g3 = (if mode = ''full'' then link_tags_and_files ds g2 else g2)
      in Inr g3)"

section \<open>Graph analytics\<close>

text \<open>
  The read accessors of \<^verbatim>\<open>networkx\<close> raise on a node that is not in the graph;
  those raises are branches of the model, and the guards of the source are what keeps
  them from being taken.
\<close>

definition nx_degree :: "Graph \<Rightarrow> string \<Rightarrow> py_error + nat" where
  \<comment> \<open>\<^verbatim>\<open>G.degree(n)\<close>: \<^verbatim>\<open>len(nbrs) + (n in nbrs)\<close>, a self-loop counts twice\<close>
  "nx_degree g n =
     (case map_of (g_adj g) n of
        None \<Rightarrow> Inl KeyError
      | Some nbrs \<Rightarrow> Inr (length nbrs + (if map_of nbrs n \<noteq> None then 1 else 0)))"

definition nx_neighbors :: "Graph \<Rightarrow> string \<Rightarrow> py_error + string list" where
  "nx_neighbors g n =
     (case map_of (g_adj g) n of None \<Rightarrow> Inl NetworkXError | Some nbrs \<Rightarrow> Inr (map fst nbrs))"

definition nx_node_data :: "Graph \<Rightarrow> string \<Rightarrow> py_error + attrs" where
  \<comment> \<open>\<^verbatim>\<open>G.nodes[n]\<close>\<close>
  "nx_node_data g n = (case map_of (g_node g) n of None \<Rightarrow> Inl KeyError | Some d \<Rightarrow> Inr d)"

fun fold_err :: "('a \<Rightarrow> 's \<Rightarrow> py_error + 's) \<Rightarrow> 'a list \<Rightarrow> 's \<Rightarrow> py_error + 's" where
  \<comment> \<open>a \<^verbatim>\<open>for\<close> loop whose body may raise: the first error ends the loop\<close>
  "fold_err f [] s = Inr s"
| "fold_err f (x # xs) s = (case f x s of Inl e \<Rightarrow> Inl e | Inr s' \<Rightarrow> fold_err f xs s')"

definition degree_items :: "Graph \<Rightarrow> py_error + (string \<times> nat) list" where
  \<comment> \<open>\<^verbatim>\<open>dict(self.graph.degree())\<close>, as its items in node order\<close>
  "degree_items g =
     fold_err (\<lambda>n acc. case nx_degree g n of Inl e \<Rightarrow> Inl e | Inr d \<Rightarrow> Inr (acc @ [(n, d)]))
       (map fst (g_node g)) []"

definition py_slice_to :: "'a list \<Rightarrow> int \<Rightarrow> 'a list" where
  \<comment> \<open>\<^verbatim>\<open>xs[:n]\<close>: a negative \<open>n\<close> counts from the end\<close>
  "py_slice_to xs n = (if 0 \<le> n then take (nat n) xs else take (length xs - nat (- n)) xs)"

subsection \<open>\<^verbatim>\<open>find_hubs\<close>\<close>

definition find_hubs :: "Graph \<Rightarrow> int \<Rightarrow> py_error + (string \<times> nat) list" where
  \<comment> \<open>\<^verbatim>\<open>sorted(..., key=degree, reverse=True)\<close> is stable: equal degrees keep node order\<close>
  "find_hubs g top_n =
     (case degree_items g of
        Inl e \<Rightarrow> Inl e
      | Inr degrees \<Rightarrow> Inr (py_slice_to (sort_key (\<lambda>x. - int (snd x)) degrees) top_n))"

subsection \<open>\<^verbatim>\<open>find_orphans\<close>\<close>

definition orphan_step :: "Graph \<Rightarrow> string option \<Rightarrow> string \<Rightarrow> string list \<Rightarrow> py_error + string list" where
  "orphan_step g node_type n orphans =
     (case nx_degree g n of
        Inl e \<Rightarrow> Inl e
      | Inr d \<Rightarrow>
          if d \<le> 1 then
            (case node_type of
               None \<Rightarrow> Inr (orphans @ [n])
             | Some ty \<Rightarrow>
                 (case nx_node_data g n of
                    Inl e \<Rightarrow> Inl e
                  | Inr node_data \<Rightarrow>
                      if map_of node_data ''type'' = Some (AStr ty)
                      then Inr (orphans @ [n]) else Inr orphans))
          else Inr orphans)"

definition find_orphans :: "Graph \<Rightarrow> string option \<Rightarrow> py_error + string list" where
  "find_orphans g node_type = fold_err (orphan_step g node_type) (map fst (g_node g)) []"

subsection \<open>\<^verbatim>\<open>recommend_tags\<close>\<close>

fun py_add :: "attr_val \<Rightarrow> attr_val \<Rightarrow> py_error + attr_val" where
  \<comment> \<open>\<^verbatim>\<open>+\<close> with a number on the left, as on a \<^verbatim>\<open>Counter\<close> value\<close>
  "py_add (AInt a) (AInt b) = Inr (AInt (a + b))"
| "py_add (AInt a) (AFloat b) = Inr (AFloat (of_int a + b))"
| "py_add (AFloat a) (AInt b) = Inr (AFloat (a + of_int b))"
| "py_add (AFloat a) (AFloat b) = Inr (AFloat (a + b))"
| "py_add _ _ = Inl TypeError"

fun num_of :: "attr_val \<Rightarrow> rat" where
  "num_of (AInt a) = of_int a"
| "num_of (AFloat a) = a"
| "num_of (AStr s) = 0"

definition edge_weight :: "attrs option \<Rightarrow> attr_val" where
  \<comment> \<open>\<^verbatim>\<open>edge_data.get("weight", 1) if edge_data else 1\<close>\<close>
  "edge_weight edge_data =
     (case edge_data of
        None \<Rightarrow> AInt 1
      | Some d \<Rightarrow> if d = [] then AInt 1
                  else (case map_of d ''weight'' of None \<Rightarrow> AInt 1 | Some w \<Rightarrow> w))"

definition score_neighbor ::
  "Graph \<Rightarrow> File \<Rightarrow> string \<Rightarrow> string \<Rightarrow> (string, attr_val) dict \<Rightarrow> py_error + (string, attr_val) dict" where
  "score_neighbor g file t neighbor tag_scores =
     (case nx_node_data g neighbor of
        Inl e \<Rightarrow> Inl e
      | Inr neighbor_data \<Rightarrow>
          if map_of neighbor_data ''type'' = Some (AStr ''tag'') \<and> neighbor \<notin> set (tags file) then
            (case py_add (case map_of tag_scores neighbor of None \<Rightarrow> AInt 0 | Some s \<Rightarrow> s)
                         (edge_weight (nx_get_edge_data g t neighbor)) of
               Inl e \<Rightarrow> Inl e
             | Inr s \<Rightarrow> Inr (AList.update neighbor s tag_scores))
          else Inr tag_scores)"

definition score_tag ::
  "Graph \<Rightarrow> File \<Rightarrow> string \<Rightarrow> (string, attr_val) dict \<Rightarrow> py_error + (string, attr_val) dict" where
  "score_tag g file t tag_scores =
     (if nx_has_node g t then
        (case nx_neighbors g t of
           Inl e \<Rightarrow> Inl e
         | Inr nbrs \<Rightarrow> fold_err (score_neighbor g file t) nbrs tag_scores)
      else Inr tag_scores)"

definition most_common :: "(string, attr_val) dict \<Rightarrow> int \<Rightarrow> (string \<times> attr_val) list" where
  \<comment> \<open>\<^verbatim>\<open>Counter.most_common(n)\<close>, that is \<^verbatim>\<open>heapq.nlargest(n, items, key=value)\<close>:
      the first \<open>n\<close> items of the stable descending sort, nothing when \<open>n \<le> 0\<close>\<close>
  "most_common c n = take (nat n) (sort_key (\<lambda>kv. - num_of (snd kv)) c)"

definition recommend_tags ::
  "DataStore \<Rightarrow> Graph \<Rightarrow> string \<Rightarrow> int \<Rightarrow> py_error + (string \<times> attr_val) list" where
  "recommend_tags ds g fid top_n =
     (case get_file ds fid of
        None \<Rightarrow> Inr []
      | Some file \<Rightarrow>
          (case fold_err (score_tag g file) (tags file) [] of
             Inl e \<Rightarrow> Inl e
           | Inr tag_scores \<Rightarrow> Inr (most_common tag_scores top_n)))"

subsection \<open>\<^verbatim>\<open>get_stats\<close>\<close>

definition node_type_of :: "Graph \<Rightarrow> string \<Rightarrow> attr_val option" where
  \<comment> \<open>\<^verbatim>\<open>self.graph.nodes[n].get("type")\<close> for a node \<open>n\<close> of the graph\<close>
  "node_type_of g n = (case map_of (g_node g) n of None \<Rightarrow> None | Some d \<Rightarrow> map_of d ''type'')"

definition count_type :: "Graph \<Rightarrow> string \<Rightarrow> nat" where
  "count_type g ty = length (filter (\<lambda>n. node_type_of g n = Some (AStr ty)) (map fst (g_node g)))"

definition nx_density :: "nat \<Rightarrow> nat \<Rightarrow> attr_val" where
  \<comment> \<open>\<^verbatim>\<open>nx.density\<close> of an undirected graph with \<open>n\<close> nodes and \<open>m\<close> edges\<close>
  "nx_density n m =
     (if m = 0 \<or> n \<le> 1 then AInt 0 else AFloat (of_nat m / of_nat (n * (n - 1)) * 2))"

definition bfs_step :: "Graph \<Rightarrow> string list \<Rightarrow> string list" where
  "bfs_step g seen = remdups (seen @ concat (map (\<lambda>v. map fst (adj_of g v)) seen))"

definition component_of :: "Graph \<Rightarrow> string \<Rightarrow> string set" where
  "component_of g n = set ((bfs_step g ^^ length (g_node g)) [n])"

definition number_connected_components :: "Graph \<Rightarrow> nat" where
  \<comment> \<open>\<^verbatim>\<open>nx.number_connected_components\<close>: the number of distinct sets of nodes reachable
      from a node\<close>
  "number_connected_components g = card (component_of g ` set (map fst (g_node g)))"

definition get_stats :: "Graph \<Rightarrow> py_error + attrs" where
  "get_stats g =
     (if length (g_node g) = 0 then
        Inr [(''total_nodes'', AInt 0), (''total_edges'', AInt 0), (''tag_nodes'', AInt 0),
             (''file_nodes'', AInt 0), (''avg_degree'', AInt 0), (''density'', AInt 0)]
      else
        (case degree_items g of
           Inl e \<Rightarrow> Inl e
         | Inr degrees \<Rightarrow>
             (let n = length (g_node g);
                  degree_sum = sum_list (map snd degrees);
                  m = degree_sum div 2
              in Inr [(''total_nodes'', AInt (int n)), (''total_edges'', AInt (int m)),
                      (''tag_nodes'', AInt (int (count_type g ''tag''))),
                      (''file_nodes'', AInt (int (count_type g ''file''))),
                      (''avg_degree'', AFloat (of_nat degree_sum / of_nat n)),
                      (''density'', nx_density n m),
                      (''connected_components'', AInt (int (number_connected_components g)))])))"

section \<open>Notions used to state the properties\<close>

subsection \<open>Well-formed graphs, degrees and node kinds\<close>

definition nx_wf :: "Graph \<Rightarrow> bool" where
  \<comment> \<open>what every \<^verbatim>\<open>networkx.Graph\<close> satisfies: both dictionaries have the same keys,
      and every neighbour is a node\<close>
  "nx_wf g \<longleftrightarrow>
     distinct (map fst (g_node g)) \<and> distinct (map fst (g_adj g)) \<and>
     set (map fst (g_node g)) = set (map fst (g_adj g)) \<and>
     list_all (\<lambda>kv. distinct (map fst (snd kv)) \<and> set (map fst (snd kv)) \<subseteq> set (map fst (g_node g)))
       (g_adj g)"

definition adj_in_nodes :: "Graph \<Rightarrow> bool" where
  \<comment> \<open>every key of \<^verbatim>\<open>_adj\<close> is a node\<close>
  "adj_in_nodes g \<longleftrightarrow> set (map fst (g_adj g)) \<subseteq> set (map fst (g_node g))"

definition nbrs_ok :: "Graph \<Rightarrow> (string, attrs) dict \<Rightarrow> bool" where
  "nbrs_ok g nbrs \<longleftrightarrow> distinct (map fst nbrs) \<and> fst ` set nbrs \<subseteq> fst ` set (g_node g)"

definition degree_of :: "Graph \<Rightarrow> string \<Rightarrow> nat" where
  \<comment> \<open>the degree of a node of the graph, as \<^const>\<open>nx_degree\<close> returns it\<close>
  "degree_of g n = length (adj_of g n) + (if map_of (adj_of g n) n \<noteq> None then 1 else 0)"

definition kind_matches :: "Graph \<Rightarrow> string option \<Rightarrow> string \<Rightarrow> bool" where
  "kind_matches g node_type n =
     (case node_type of None \<Rightarrow> True | Some ty \<Rightarrow> node_type_of g n = Some (AStr ty))"

subsection \<open>Counting the files of a pair of tags\<close>

definition cooccurrence_count :: "DataStore \<Rightarrow> string \<Rightarrow> string \<Rightarrow> int" where
  \<comment> \<open>the counter of an unordered pair after all files have been scanned\<close>
  "cooccurrence_count ds a b =
     (case map_of (tag_cooccurrence ds) (sorted_pair a b) of None \<Rightarrow> 0 | Some n \<Rightarrow> n)"

definition cnt :: "counter \<Rightarrow> string \<times> string \<Rightarrow> int" where
  \<comment> \<open>reading a \<^verbatim>\<open>defaultdict(int)\<close>\<close>
  "cnt c k = (case map_of c k of None \<Rightarrow> 0 | Some n \<Rightarrow> n)"

definition sorted_keys :: "counter \<Rightarrow> bool" where
  \<comment> \<open>the keys of the counter are sorted pairs, each present once\<close>
  "sorted_keys c \<longleftrightarrow> distinct (map fst c) \<and> (\<forall>k \<in> fst ` set c. sorted_pair (fst k) (snd k) = k)"

fun pairs_of :: "string list \<Rightarrow> (string \<times> string) list" where
  \<comment> \<open>the pairs one file's tag list contributes, in the order the iteration visits them\<close>
  "pairs_of [] = []"
| "pairs_of (t # rest) = map (sorted_pair t) rest @ pairs_of rest"

definition files_with_both :: "DataStore \<Rightarrow> string \<Rightarrow> string \<Rightarrow> File list" where
  "files_with_both ds a b =
     filter (\<lambda>file. a \<in> set (tags file) \<and> b \<in> set (tags file)) (map snd (store_files ds))"

definition files_with :: "DataStore \<Rightarrow> string \<Rightarrow> File list" where
  "files_with ds a = filter (\<lambda>file. a \<in> set (tags file)) (map snd (store_files ds))"

definition no_repeated_tags :: "DataStore \<Rightarrow> bool" where
  \<comment> \<open>what \<^verbatim>\<open>File.add_tag\<close> maintains: no file lists a tag id twice\<close>
  "no_repeated_tags ds \<longleftrightarrow> list_all (\<lambda>file. distinct (tags file)) (map snd (store_files ds))"

definition usage_covers_files :: "DataStore \<Rightarrow> bool" where
  \<comment> \<open>every tag's usage count is at least the number of files that carry the tag\<close>
  "usage_covers_files ds \<longleftrightarrow>
     list_all (\<lambda>kv. int (length (files_with ds (fst kv))) \<le> usage_count (snd kv)) (store_tags ds)"

subsection \<open>Jaccard similarity\<close>

definition jaccard :: "string set \<Rightarrow> string set \<Rightarrow> rat" where
  \<comment> \<open>intersection size divided by union size, 0 if either set is empty\<close>
  "jaccard A B = (if A = {} \<or> B = {} then 0 else of_nat (card (A \<inter> B)) / of_nat (card (A \<union> B)))"

fun ordered_pairs :: "'a list \<Rightarrow> ('a \<times> 'a) list" where
  \<comment> \<open>the pairs \<open>(xs[i], xs[j])\<close> with \<open>i < j\<close>, in the order the nested iteration visits them\<close>
  "ordered_pairs [] = []"
| "ordered_pairs (x # rest) = map (Pair x) rest @ ordered_pairs rest"

subsection \<open>Edge requests\<close>

text \<open>
  Both edge passes add edges for a list of requests \<open>(u, v, attributes)\<close>, a request
  without attributes being a pair that fails the threshold. \<open>request_key\<close> is the
  unordered pair of a request and \<open>requested\<close> the payload the list asks for.
\<close>

definition apply_request :: "string \<times> string \<times> attrs option \<Rightarrow> Graph \<Rightarrow> Graph" where
  "apply_request r g =
     (case snd (snd r) of None \<Rightarrow> g | Some attr \<Rightarrow> nx_add_edge g (fst r) (fst (snd r)) attr)"

definition request_key :: "string \<times> string \<times> attrs option \<Rightarrow> string \<times> string" where
  "request_key r = sorted_pair (fst r) (fst (snd r))"

definition requested :: "(string \<times> string \<times> attrs option) list \<Rightarrow> string \<Rightarrow> string \<Rightarrow> attrs option" where
  "requested rs x y =
     (case map_of (map (\<lambda>r. (request_key r, snd (snd r))) rs) (sorted_pair x y) of
        None \<Rightarrow> None
      | Some None \<Rightarrow> None
      | Some (Some attr) \<Rightarrow> Some (dict_update [] attr))"

definition cooccurrence_request :: "DataStore \<Rightarrow> (string \<times> string) \<times> int \<Rightarrow> string \<times> string \<times> attrs option" where
  "cooccurrence_request ds item =
     (fst (fst item), snd (fst item),
      if snd item \<ge> 2 then
        (case get_tag ds (fst (fst item)) of
           None \<Rightarrow> None
         | Some tag1 \<Rightarrow>
             (case get_tag ds (snd (fst item)) of
                None \<Rightarrow> None
              | Some tag2 \<Rightarrow> Some (cooccurrence_attrs (snd item) tag1 tag2)))
      else None)"

definition similarity_payload :: "File \<Rightarrow> File \<Rightarrow> attrs option" where
  "similarity_payload file1 file2 =
     (if calculate_tag_similarity file1 file2 > 3 / 10
      then Some (similarity_attrs (calculate_tag_similarity file1 file2)) else None)"

definition similarity_request :: "File \<times> File \<Rightarrow> string \<times> string \<times> attrs option" where
  "similarity_request p = (file_id (fst p), file_id (snd p), similarity_payload (fst p) (snd p))"

subsection \<open>Ranges of the edge payloads\<close>

definition nonneg_number :: "attr_val option \<Rightarrow> bool" where
  "nonneg_number v =
     (case v of Some (AInt n) \<Rightarrow> 0 \<le> n | Some (AFloat r) \<Rightarrow> 0 \<le> r | _ \<Rightarrow> False)"

definition in_unit_interval :: "attr_val option \<Rightarrow> bool" where
  "in_unit_interval v =
     (case v of Some (AInt n) \<Rightarrow> 0 \<le> n \<and> n \<le> 1 | Some (AFloat r) \<Rightarrow> 0 \<le> r \<and> r \<le> 1
      | _ \<Rightarrow> False)"

definition payload_ok :: "bool \<Rightarrow> attrs \<Rightarrow> bool" where
  \<comment> \<open>the ranges of the payloads of an edge, by its type; \<open>bounded\<close> asks for the upper
      bound of the strength as well\<close>
  "payload_ok bounded d \<longleftrightarrow>
     (map_of d ''type'' = Some (AStr ''cooccurrence'') \<longrightarrow>
        nonneg_number (map_of d ''strength'') \<and>
        (bounded \<longrightarrow> in_unit_interval (map_of d ''strength''))) \<and>
     (map_of d ''type'' = Some (AStr ''similarity'') \<longrightarrow> in_unit_interval (map_of d ''weight''))"

definition edges_sat :: "(attrs \<Rightarrow> bool) \<Rightarrow> Graph \<Rightarrow> bool" where
  \<comment> \<open>every edge payload of the graph satisfies \<open>P\<close>\<close>
  "edges_sat P g \<longleftrightarrow>
     adj_in_nodes g \<and> (\<forall>x y d. nx_get_edge_data g x y = Some d \<longrightarrow> P d)"

definition numeric :: "attr_val \<Rightarrow> bool" where
  "numeric v = (case v of AStr s \<Rightarrow> False | _ \<Rightarrow> True)"

definition weight_numeric :: "attrs \<Rightarrow> bool" where
  \<comment> \<open>the weight of an edge, when it has one, is a number\<close>
  "weight_numeric d = (case map_of d ''weight'' of None \<Rightarrow> True | Some w \<Rightarrow> numeric w)"

definition scores_numeric :: "(string, attr_val) dict \<Rightarrow> bool" where
  "scores_numeric sc \<longleftrightarrow> list_all (\<lambda>kv. numeric (snd kv)) sc"

section \<open>Example stores\<close>

definition mk_tag :: "string \<Rightarrow> int \<Rightarrow> string \<times> Tag" where
  "mk_tag i u = (i, \<lparr>tag_id = i, tag_name = i, category = ''uncategorized'', usage_count = u\<rparr>)"

definition mk_file :: "string \<Rightarrow> string list \<Rightarrow> string \<times> File" where
  "mk_file i ts = (i, \<lparr>file_id = i, file_name = i, file_size = 0, tags = ts\<rparr>)"

definition store_abc :: DataStore where
  \<comment> \<open>the scenario of the specification: tags A, B, C and files F1 to F4\<close>
  "store_abc =
     \<lparr>store_tags = [mk_tag ''A'' 5, mk_tag ''B'' 3, mk_tag ''C'' 1],
      store_files = [mk_file ''F1'' [''A'', ''B''], mk_file ''F2'' [''A'', ''B''],
                     mk_file ''F3'' [''A'', ''C''], mk_file ''F4'' [''A'']]\<rparr>"

definition store_low_usage :: DataStore where
  \<comment> \<open>usage counts that lag behind the files: both tags are on two files, each counted once\<close>
  "store_low_usage =
     \<lparr>store_tags = [mk_tag ''A'' 1, mk_tag ''B'' 1],
      store_files = [mk_file ''F1'' [''A'', ''B''], mk_file ''F2'' [''A'', ''B'']]\<rparr>"

definition store_empty :: DataStore where
  "store_empty = \<lparr>store_tags = [], store_files = []\<rparr>"

definition one_file_store :: "string list \<Rightarrow> DataStore" where
  \<comment> \<open>tags A and B, and a single file F1 carrying the given tag list\<close>
  "one_file_store ts =
     \<lparr>store_tags = [mk_tag ''A'' 1, mk_tag ''B'' 1], store_files = [mk_file ''F1'' ts]\<rparr>"

definition graph_abc :: Graph where
  \<comment> \<open>the tag graph of the scenario: one edge A - B of weight 2, C isolated\<close>
  "graph_abc = build_tag_graph store_abc nx_empty"

definition graph_abc_full :: Graph where
  \<comment> \<open>the full graph of the scenario\<close>
  "graph_abc_full =
     link_tags_and_files store_abc (build_file_graph store_abc (build_tag_graph store_abc nx_empty))"

section \<open>Properties\<close>

subsection \<open>Auxiliary facts\<close>

lemma generate_Inr:
  "generate ds mode g = Inr (if mode = ''tags'' then build_tag_graph ds nx_empty
      else if mode = ''files'' then build_file_graph ds nx_empty
      else if mode = ''full'' then link_tags_and_files ds (build_file_graph ds (build_tag_graph ds nx_empty))
      else nx_empty)"
  by (simp add: generate_def nx_clear_def Let_def)

lemma map_of_in_keys:
  "n \<in> set (map fst al) \<Longrightarrow> \<exists>v. map_of al n = Some v"
  by (cases "map_of al n") (auto simp: map_of_eq_None_iff)

lemma fold_err_invariant:
  assumes "fold_err f xs s = Inr s'" "I s"
    and "\<And>x t t'. I t \<Longrightarrow> f x t = Inr t' \<Longrightarrow> I t'"
  shows "I s'"
  using assms(1,2)
proof (induction xs arbitrary: s)
  case Nil
  then show ?case by simp
next
  case (Cons x xs)
  then obtain t where t: "f x s = Inr t" "fold_err f xs t = Inr s'"
    by (auto split: sum.splits)
  have "I t" using assms(3) [OF Cons.prems(2) t(1)] .
  then show ?case using Cons.IH [OF t(2)] by simp
qed

lemma fold_preserves:
  assumes "I s" "\<And>x t. x \<in> set xs \<Longrightarrow> I t \<Longrightarrow> I (f x t)"
  shows "I (fold f xs s)"
  using assms
proof (induction xs arbitrary: s)
  case Nil
  then show ?case by simp
next
  case (Cons x xs)
  have "I (f x s)" using Cons.prems by simp
  then show ?case using Cons.IH [of "f x s"] Cons.prems(2) by simp
qed

lemma sorted_pair_eq_iff:
  "sorted_pair a b = sorted_pair c d \<longleftrightarrow> (a = c \<and> b = d) \<or> (a = d \<and> b = c)"
  by (auto simp: sorted_pair_def split: if_splits)

lemma sorted_pair_commute: "sorted_pair a b = sorted_pair b a"
  by (auto simp: sorted_pair_def)

lemma sorted_pair_idem: "sorted_pair (fst (sorted_pair a b)) (snd (sorted_pair a b)) = sorted_pair a b"
  by (auto simp: sorted_pair_def)

lemma map_of_map_item:
  "map_of (map (\<lambda>kv. (fst kv, h kv)) c) k = map_option (\<lambda>v. h (k, v)) (map_of c k)"
  by (induction c) auto

lemma set_update_subset: "set (AList.update k v al) \<subseteq> insert (k, v) (set al)"
  by (induction al) auto

lemma sum_indicator: "(\<Sum>f\<leftarrow>fs. int (if P f then 1 else 0)) = int (length (filter P fs))"
  by (induction fs) simp_all

lemma sum_list_zero: "(\<And>f. f \<in> set fs \<Longrightarrow> h f = 0) \<Longrightarrow> (\<Sum>f\<leftarrow>fs. h f) = (0::int)"
  by (induction fs) simp_all

lemma length_filter_conj: "length (filter (\<lambda>x. P x \<and> Q x) xs) \<le> length (filter P xs)"
  by (induction xs) auto

subsection \<open>Edges after \<^verbatim>\<open>add_node\<close> and \<^verbatim>\<open>add_edge\<close>\<close>

lemma edge_data_adj_of: "nx_get_edge_data g x y = map_of (adj_of g x) y"
  by (simp add: nx_get_edge_data_def adj_of_def split: option.splits)

lemma has_edge_edge_data: "nx_has_edge g x y \<longleftrightarrow> nx_get_edge_data g x y \<noteq> None"
  by (simp add: nx_has_edge_def nx_get_edge_data_def split: option.splits)

lemma has_node_keys: "nx_has_node g n \<longleftrightarrow> n \<in> fst ` set (g_node g)"
  by (simp add: nx_has_node_def map_of_eq_None_iff)

lemma adj_of_fresh: "adj_in_nodes g \<Longrightarrow> \<not> nx_has_node g n \<Longrightarrow> adj_of g n = []"
proof -
  assume a: "adj_in_nodes g" "\<not> nx_has_node g n"
  then have "n \<notin> fst ` set (g_node g)"
    by (simp add: nx_has_node_def map_of_eq_None_iff)
  then have "n \<notin> fst ` set (g_adj g)"
    using a(1) by (auto simp: adj_in_nodes_def)
  then have "map_of (g_adj g) n = None" by (simp add: map_of_eq_None_iff)
  then show ?thesis by (simp add: adj_of_def)
qed

lemma adj_of_update:
  "adj_of (g\<lparr>g_adj := AList.update k v al\<rparr>) x = (if x = k then v else adj_of (g\<lparr>g_adj := al\<rparr>) x)"
  by (simp add: adj_of_def update_conv')

lemma adj_of_same: "adj_of (g\<lparr>g_adj := g_adj g'\<rparr>) x = adj_of g' x"
  by (simp add: adj_of_def)

lemma ensure_node_adj_of: "adj_in_nodes g \<Longrightarrow> adj_of (ensure_node g u) x = adj_of g x"
proof (cases "nx_has_node g u")
  case True
  then show ?thesis by (simp add: ensure_node_def)
next
  case False
  assume a: "adj_in_nodes g"
  have "adj_of (ensure_node g u) x = (if x = u then [] else adj_of g x)"
    using False by (simp add: ensure_node_def adj_of_def update_conv')
  then show ?thesis using adj_of_fresh [OF a False] by simp
qed

lemma ensure_node_keys:
  "fst ` set (g_node (ensure_node g u)) = insert u (fst ` set (g_node g))"
proof (cases "nx_has_node g u")
  case True
  then have "u \<in> fst ` set (g_node g)"
    by (simp add: nx_has_node_def map_of_eq_None_iff)
  then show ?thesis using True by (auto simp: ensure_node_def)
next
  case False
  then show ?thesis by (simp add: ensure_node_def dom_update)
qed

lemma ensure_node_inv: "adj_in_nodes g \<Longrightarrow> adj_in_nodes (ensure_node g u)"
  by (auto simp: adj_in_nodes_def ensure_node_def dom_update)

lemma add_edge_adj_of:
  assumes "adj_in_nodes g"
  shows "adj_of (nx_add_edge g u v attr) x =
    (let dd = dict_update (case map_of (adj_of g u) v of None \<Rightarrow> [] | Some d \<Rightarrow> d) attr in
     if x = v then AList.update u dd (if v = u then AList.update v dd (adj_of g u) else adj_of g v)
     else if x = u then AList.update v dd (adj_of g u)
     else adj_of g x)"
proof -
  have e: "\<And>w z. adj_of (ensure_node (ensure_node g u) w) z = adj_of g z"
    using assms by (simp add: ensure_node_adj_of ensure_node_inv)
  show ?thesis
    by (simp add: nx_add_edge_def Let_def adj_of_update adj_of_same e)
qed

lemma add_edge_edge_data:
  assumes "adj_in_nodes g"
  shows "nx_get_edge_data (nx_add_edge g u v attr) x y =
    (if (x = u \<and> y = v) \<or> (x = v \<and> y = u)
     then Some (dict_update (case nx_get_edge_data g u v of None \<Rightarrow> [] | Some d \<Rightarrow> d) attr)
     else nx_get_edge_data g x y)"
  by (simp add: edge_data_adj_of add_edge_adj_of [OF assms] Let_def update_conv')

lemma add_edge_keys:
  "fst ` set (g_node (nx_add_edge g u v attr)) = insert u (insert v (fst ` set (g_node g)))"
  by (simp add: nx_add_edge_def Let_def ensure_node_keys insert_commute)

lemma add_edge_inv:
  assumes "adj_in_nodes g"
  shows "adj_in_nodes (nx_add_edge g u v attr)"
proof -
  have "adj_in_nodes (ensure_node (ensure_node g u) v)"
    using assms by (simp add: ensure_node_inv)
  moreover have "u \<in> fst ` set (g_node (ensure_node (ensure_node g u) v))"
    "v \<in> fst ` set (g_node (ensure_node (ensure_node g u) v))"
    by (simp_all add: ensure_node_keys)
  ultimately show ?thesis
    by (auto simp: adj_in_nodes_def nx_add_edge_def Let_def dom_update)
qed

lemma add_node_keys:
  "fst ` set (g_node (nx_add_node g n attr)) = insert n (fst ` set (g_node g))"
  by (auto simp: nx_add_node_def dom_update split: option.splits)

lemma add_node_inv: "adj_in_nodes g \<Longrightarrow> adj_in_nodes (nx_add_node g n attr)"
  by (auto simp: adj_in_nodes_def nx_add_node_def dom_update split: option.splits)

lemma add_node_edge_data:
  assumes "adj_in_nodes g"
  shows "nx_get_edge_data (nx_add_node g n attr) x y = nx_get_edge_data g x y"
proof (cases "map_of (g_node g) n")
  case None
  then have "\<not> nx_has_node g n" by (simp add: nx_has_node_def)
  then have "adj_of g n = []" using adj_of_fresh [OF assms] by simp
  moreover have "adj_of (nx_add_node g n attr) x = (if x = n then [] else adj_of g x)"
    using None by (simp add: nx_add_node_def adj_of_def update_conv')
  ultimately show ?thesis by (simp add: edge_data_adj_of)
next
  case (Some d)
  then show ?thesis by (simp add: nx_add_node_def nx_get_edge_data_def)
qed

lemma empty_inv: "adj_in_nodes nx_empty"
  by (simp add: adj_in_nodes_def nx_empty_def)

lemma empty_edge_data: "nx_get_edge_data nx_empty x y = None"
  by (simp add: nx_get_edge_data_def nx_empty_def)

lemma fold_add_nodes:
  assumes "adj_in_nodes g"
  shows "adj_in_nodes (fold (\<lambda>t acc. nx_add_node acc (k t) (a t)) ts g) \<and>
     (\<forall>x y. nx_get_edge_data (fold (\<lambda>t acc. nx_add_node acc (k t) (a t)) ts g) x y
        = nx_get_edge_data g x y) \<and>
     fst ` set (g_node (fold (\<lambda>t acc. nx_add_node acc (k t) (a t)) ts g))
        = fst ` set (g_node g) \<union> k ` set ts"
  using assms
proof (induction ts arbitrary: g)
  case Nil
  then show ?case by simp
next
  case (Cons t ts)
  have i: "adj_in_nodes (nx_add_node g (k t) (a t))"
    using Cons.prems by (rule add_node_inv)
  show ?case
    using Cons.IH [OF i] add_node_edge_data [OF Cons.prems] add_node_keys [of g "k t" "a t"]
    by auto
qed

subsection \<open>Every graph \<^verbatim>\<open>generate\<close> builds is well formed\<close>

lemma nx_wf_iff:
  "nx_wf g \<longleftrightarrow> distinct (map fst (g_node g)) \<and> distinct (map fst (g_adj g)) \<and>
     fst ` set (g_node g) = fst ` set (g_adj g) \<and> (\<forall>kv \<in> set (g_adj g). nbrs_ok g (snd kv))"
  by (simp add: nx_wf_def nbrs_ok_def list_all_iff)

lemma nbrs_ok_adj_of: "nx_wf g \<Longrightarrow> nbrs_ok g (adj_of g x)"
proof (cases "map_of (g_adj g) x")
  case None
  then show ?thesis by (simp add: adj_of_def nbrs_ok_def)
next
  case (Some l)
  assume w: "nx_wf g"
  have "(x, l) \<in> set (g_adj g)" using Some by (rule map_of_SomeD)
  then have "nbrs_ok g l" using w unfolding nx_wf_iff by force
  then show ?thesis using Some by (simp add: adj_of_def)
qed

lemma nbrs_ok_mono:
  "nbrs_ok g l \<Longrightarrow> fst ` set (g_node g) \<subseteq> fst ` set (g_node g') \<Longrightarrow> nbrs_ok g' l"
  unfolding nbrs_ok_def by blast

lemma nbrs_ok_update:
  "nbrs_ok g l \<Longrightarrow> v \<in> fst ` set (g_node g) \<Longrightarrow> nbrs_ok g (AList.update v d l)"
  by (simp add: nbrs_ok_def distinct_update dom_update)

lemma nx_wf_new_node:
  assumes "nx_wf g"
  shows "nx_wf \<lparr>g_node = AList.update n a (g_node g), g_adj = AList.update n [] (g_adj g)\<rparr>"
proof -
  let ?g' = "\<lparr>g_node = AList.update n a (g_node g), g_adj = AList.update n [] (g_adj g)\<rparr>"
  have sub: "fst ` set (g_node g) \<subseteq> fst ` set (g_node ?g')"
    by (auto simp: dom_update)
  have "\<forall>kv \<in> set (g_adj ?g'). nbrs_ok ?g' (snd kv)"
  proof
    fix kv assume "kv \<in> set (g_adj ?g')"
    then have "kv = (n, []) \<or> kv \<in> set (g_adj g)"
      using set_update_subset [of n "[]" "g_adj g"] by auto
    then show "nbrs_ok ?g' (snd kv)"
    proof
      assume "kv = (n, [])"
      then show ?thesis by (simp add: nbrs_ok_def)
    next
      assume "kv \<in> set (g_adj g)"
      then have "nbrs_ok g (snd kv)" using assms unfolding nx_wf_iff by blast
      then show ?thesis using sub by (rule nbrs_ok_mono)
    qed
  qed
  moreover have "distinct (map fst (g_node ?g'))" "distinct (map fst (g_adj ?g'))"
    "fst ` set (g_node ?g') = fst ` set (g_adj ?g')"
    using assms by (simp_all add: nx_wf_iff distinct_update dom_update)
  ultimately show ?thesis unfolding nx_wf_iff by blast
qed

lemma nx_wf_old_node:
  assumes "nx_wf g" "n \<in> fst ` set (g_node g)"
  shows "nx_wf (g\<lparr>g_node := AList.update n a (g_node g)\<rparr>)"
proof -
  let ?g' = "g\<lparr>g_node := AList.update n a (g_node g)\<rparr>"
  have k: "fst ` set (AList.update n a (g_node g)) = fst ` set (g_node g)"
    using assms(2) by (auto simp: dom_update)
  have "\<forall>kv \<in> set (g_adj ?g'). nbrs_ok ?g' (snd kv)"
  proof
    fix kv assume "kv \<in> set (g_adj ?g')"
    then have "nbrs_ok g (snd kv)" using assms(1) unfolding nx_wf_iff by simp
    then show "nbrs_ok ?g' (snd kv)" by (rule nbrs_ok_mono) (simp add: k)
  qed
  moreover have "distinct (map fst (g_node ?g'))" "distinct (map fst (g_adj ?g'))"
    using assms(1) by (simp_all add: nx_wf_iff distinct_update)
  moreover have "fst ` set (g_node ?g') = fst ` set (g_adj ?g')"
    using assms(1) by (simp add: nx_wf_iff k)
  ultimately show ?thesis unfolding nx_wf_iff by blast
qed

lemma nx_wf_add_node: "nx_wf g \<Longrightarrow> nx_wf (nx_add_node g n a)"
proof (cases "map_of (g_node g) n")
  case None
  assume "nx_wf g"
  then show ?thesis using None by (simp add: nx_add_node_def nx_wf_new_node)
next
  case (Some d)
  assume w: "nx_wf g"
  have "n \<in> fst ` set (g_node g)"
    using Some map_of_eq_None_iff [of "g_node g" n] by simp
  then show ?thesis using Some w by (simp add: nx_add_node_def nx_wf_old_node)
qed

lemma nx_wf_ensure_node: "nx_wf g \<Longrightarrow> nx_wf (ensure_node g u)"
  by (simp add: ensure_node_def nx_wf_new_node)

lemma nx_wf_set_adj:
  assumes "nx_wf g" "nbrs_ok g l" "u \<in> fst ` set (g_node g)"
  shows "nx_wf (g\<lparr>g_adj := AList.update u l (g_adj g)\<rparr>)"
proof -
  let ?g' = "g\<lparr>g_adj := AList.update u l (g_adj g)\<rparr>"
  have "\<forall>kv \<in> set (g_adj ?g'). nbrs_ok ?g' (snd kv)"
  proof
    fix kv assume "kv \<in> set (g_adj ?g')"
    then have "kv = (u, l) \<or> kv \<in> set (g_adj g)"
      using set_update_subset [of u l "g_adj g"] by auto
    then have "nbrs_ok g (snd kv)"
      using assms(1,2) unfolding nx_wf_iff by auto
    then show "nbrs_ok ?g' (snd kv)" by (simp add: nbrs_ok_def)
  qed
  moreover have "distinct (map fst (g_node ?g'))" "distinct (map fst (g_adj ?g'))"
    "fst ` set (g_node ?g') = fst ` set (g_adj ?g')"
    using assms(1,3) by (auto simp: nx_wf_iff distinct_update dom_update)
  ultimately show ?thesis unfolding nx_wf_iff by blast
qed

lemma nx_wf_add_edge:
  assumes "nx_wf g"
  shows "nx_wf (nx_add_edge g u v a)"
proof -
  define g2 where "g2 = ensure_node (ensure_node g u) v"
  define dd where "dd = dict_update (case map_of (adj_of g2 u) v of None \<Rightarrow> [] | Some d \<Rightarrow> d) a"
  define g3 where "g3 = g2\<lparr>g_adj := AList.update u (AList.update v dd (adj_of g2 u)) (g_adj g2)\<rparr>"
  have w2: "nx_wf g2" unfolding g2_def using assms by (simp add: nx_wf_ensure_node)
  have n2: "u \<in> fst ` set (g_node g2)" "v \<in> fst ` set (g_node g2)"
    unfolding g2_def by (simp_all add: ensure_node_keys)
  have w3: "nx_wf g3"
    unfolding g3_def
    by (rule nx_wf_set_adj [OF w2 nbrs_ok_update [OF nbrs_ok_adj_of [OF w2] n2(2)] n2(1)])
  have n3: "u \<in> fst ` set (g_node g3)" "v \<in> fst ` set (g_node g3)"
    unfolding g3_def using n2 by simp_all
  have "nx_wf (g3\<lparr>g_adj := AList.update v (AList.update u dd (adj_of g3 v)) (g_adj g3)\<rparr>)"
    by (rule nx_wf_set_adj [OF w3 nbrs_ok_update [OF nbrs_ok_adj_of [OF w3] n3(1)] n3(2)])
  then show ?thesis
    unfolding nx_add_edge_def Let_def g3_def dd_def g2_def .
qed

lemma nx_wf_empty: "nx_wf nx_empty"
  by (simp add: nx_wf_def nx_empty_def)

lemma nx_wf_build_tag_graph: "nx_wf g \<Longrightarrow> nx_wf (build_tag_graph ds g)"
proof -
  assume w: "nx_wf g"
  have "nx_wf (add_tag_nodes ds g)"
    unfolding add_tag_nodes_def
    by (rule fold_preserves [where I = nx_wf]) (simp_all add: w nx_wf_add_node)
  then show ?thesis
    unfolding build_tag_graph_def
    by (rule fold_preserves [where I = nx_wf])
      (simp add: add_cooccurrence_edge_def Let_def nx_wf_add_edge split: option.splits)
qed

lemma nx_wf_similarity_edges: "nx_wf g \<Longrightarrow> nx_wf (add_similarity_edges fs g)"
proof (induction fs arbitrary: g)
  case Nil
  then show ?case by simp
next
  case (Cons f rest)
  have "nx_wf (fold (add_similarity_edge f) rest g)"
    by (rule fold_preserves [where I = nx_wf])
      (simp_all add: Cons.prems add_similarity_edge_def Let_def nx_wf_add_edge)
  then show ?case by (simp add: Cons.IH)
qed

lemma nx_wf_build_file_graph: "nx_wf g \<Longrightarrow> nx_wf (build_file_graph ds g)"
proof -
  assume w: "nx_wf g"
  have "nx_wf (add_file_nodes ds g)"
    unfolding add_file_nodes_def
    by (rule fold_preserves [where I = nx_wf]) (simp_all add: w nx_wf_add_node)
  then show ?thesis
    unfolding build_file_graph_def by (rule nx_wf_similarity_edges)
qed

lemma nx_wf_link_tags_and_files:
  assumes "nx_wf g"
  shows "nx_wf (link_tags_and_files ds g)"
  unfolding link_tags_and_files_def
proof (rule fold_preserves [where I = nx_wf])
  show "nx_wf g" by (rule assms)
next
  fix fl t
  assume "nx_wf t"
  then show "nx_wf (fold (link_file_tag fl) (tags fl) t)"
    by (rule fold_preserves [where I = nx_wf]) (simp add: link_file_tag_def nx_wf_add_edge)
qed

lemma nx_wf_generate: "generate ds mode g0 = Inr g \<Longrightarrow> nx_wf g"
proof -
  assume g: "generate ds mode g0 = Inr g"
  note t = nx_wf_build_tag_graph [OF nx_wf_empty, of ds]
  have "nx_wf (if mode = ''tags'' then build_tag_graph ds nx_empty
      else if mode = ''files'' then build_file_graph ds nx_empty
      else if mode = ''full'' then link_tags_and_files ds (build_file_graph ds (build_tag_graph ds nx_empty))
      else nx_empty)"
    using t nx_wf_build_file_graph [OF nx_wf_empty, of ds]
      nx_wf_link_tags_and_files [OF nx_wf_build_file_graph [OF t], of ds] nx_wf_empty
    by simp
  then show ?thesis using g by (simp add: generate_Inr)
qed

subsection \<open>Lists of edge requests\<close>

lemma requested_fresh:
  "request_key r \<notin> set (map request_key rs) \<Longrightarrow> requested rs (fst r) (fst (snd r)) = None"
proof -
  assume "request_key r \<notin> set (map request_key rs)"
  then have "map_of (map (\<lambda>r. (request_key r, snd (snd r))) rs) (request_key r) = None"
    by (simp add: map_of_eq_None_iff image_image)
  then show ?thesis by (simp add: requested_def request_key_def)
qed

lemma requested_snoc:
  assumes "request_key r \<notin> set (map request_key rs)"
  shows "requested (rs @ [r]) x y =
    (if sorted_pair x y = request_key r
     then (case snd (snd r) of None \<Rightarrow> None | Some attr \<Rightarrow> Some (dict_update [] attr))
     else requested rs x y)"
proof -
  have n: "map_of (map (\<lambda>r. (request_key r, snd (snd r))) rs) (request_key r) = None"
    using assms by (simp add: map_of_eq_None_iff image_image)
  show ?thesis
  proof (cases "sorted_pair x y = request_key r")
    case True
    then show ?thesis using n
      by (simp add: requested_def map_add_def split: option.splits)
  next
    case False
    then show ?thesis
      by (simp add: requested_def map_add_def split: option.splits)
  qed
qed

lemma fold_requests:
  assumes "adj_in_nodes g0" "\<And>x y. nx_get_edge_data g0 x y = None"
    and "distinct (map request_key rs)"
  shows "adj_in_nodes (fold apply_request rs g0) \<and>
         (\<forall>x y. nx_get_edge_data (fold apply_request rs g0) x y = requested rs x y)"
  using assms(3)
proof (induction rs rule: rev_induct)
  case Nil
  then show ?case using assms(1,2) by (simp add: requested_def)
next
  case (snoc r rs)
  let ?G = "fold apply_request rs g0"
  have fresh: "request_key r \<notin> set (map request_key rs)"
    using snoc.prems by simp
  have ih: "adj_in_nodes ?G" "\<And>x y. nx_get_edge_data ?G x y = requested rs x y"
    using snoc.IH snoc.prems by simp_all
  have step: "fold apply_request (rs @ [r]) g0 = apply_request r ?G"
    by simp
  show ?case
  proof (cases "snd (snd r)")
    case None
    have "\<And>x y. requested (rs @ [r]) x y = requested rs x y"
    proof -
      fix x y
      show "requested (rs @ [r]) x y = requested rs x y"
        using requested_snoc [OF fresh, of x y] None requested_fresh [OF fresh]
        by (auto simp: request_key_def sorted_pair_eq_iff requested_def split: option.splits)
    qed
    moreover have "apply_request r ?G = ?G"
      using None by (simp add: apply_request_def)
    ultimately show ?thesis using ih unfolding step by simp
  next
    case (Some attr)
    have old: "nx_get_edge_data ?G (fst r) (fst (snd r)) = None"
      using ih(2) requested_fresh [OF fresh] by simp
    have "\<And>x y. nx_get_edge_data (nx_add_edge ?G (fst r) (fst (snd r)) attr) x y = requested (rs @ [r]) x y"
    proof -
      fix x y
      show "nx_get_edge_data (nx_add_edge ?G (fst r) (fst (snd r)) attr) x y = requested (rs @ [r]) x y"
        using add_edge_edge_data [OF ih(1), of "fst r" "fst (snd r)" attr x y] old Some
          requested_snoc [OF fresh, of x y] ih(2) [of x y]
        by (auto simp: request_key_def sorted_pair_eq_iff)
    qed
    moreover have "apply_request r ?G = nx_add_edge ?G (fst r) (fst (snd r)) attr"
      using Some by (simp add: apply_request_def)
    ultimately show ?thesis using add_edge_inv [OF ih(1)] unfolding step by simp
  qed
qed

lemma apply_request_keys: "fst ` set (g_node g) \<subseteq> fst ` set (g_node (apply_request r g))"
  by (auto simp: apply_request_def add_edge_keys split: option.splits)

lemma fold_requests_keys: "fst ` set (g_node g) \<subseteq> fst ` set (g_node (fold apply_request rs g))"
proof (induction rs arbitrary: g)
  case Nil
  then show ?case by simp
next
  case (Cons r rs)
  show ?case using apply_request_keys [of g r] Cons.IH [of "apply_request r g"] by auto
qed

subsection \<open>What the counter counts\<close>

lemma incr_sorted_keys: "sorted_keys c \<Longrightarrow> sorted_keys (incr c (sorted_pair a b))"
  by (auto simp: sorted_keys_def incr_def distinct_update dom_update sorted_pair_idem)

lemma inner_sorted_keys:
  "sorted_keys c \<Longrightarrow> sorted_keys (fold (\<lambda>t2 acc. incr acc (sorted_pair t1 t2)) rest c)"
  by (induction rest arbitrary: c) (simp_all add: incr_sorted_keys)

lemma count_tag_pairs_sorted_keys: "sorted_keys c \<Longrightarrow> sorted_keys (count_tag_pairs ts c)"
  by (induction ts arbitrary: c) (simp_all add: inner_sorted_keys)

lemma files_sorted_keys:
  "sorted_keys c \<Longrightarrow> sorted_keys (fold (\<lambda>file acc. count_tag_pairs (tags file) acc) fs c)"
  by (induction fs arbitrary: c) (simp_all add: count_tag_pairs_sorted_keys)

lemma tag_cooccurrence_sorted_keys: "sorted_keys (tag_cooccurrence ds)"
  unfolding tag_cooccurrence_def by (rule files_sorted_keys) (simp add: sorted_keys_def)

lemma cnt_incr: "cnt (incr c p) k = cnt c k + (if k = p then 1 else 0)"
  by (simp add: cnt_def incr_def update_conv')

lemma cnt_inner:
  "cnt (fold (\<lambda>t2 acc. incr acc (sorted_pair t1 t2)) rest c) k
     = cnt c k + int (count_list (map (sorted_pair t1) rest) k)"
  by (induction rest arbitrary: c) (simp_all add: cnt_incr)

lemma cnt_count_tag_pairs:
  "cnt (count_tag_pairs ts c) k = cnt c k + int (count_list (pairs_of ts) k)"
  by (induction ts arbitrary: c) (simp_all add: cnt_inner)

lemma cnt_files:
  "cnt (fold (\<lambda>file acc. count_tag_pairs (tags file) acc) fs c) k
     = cnt c k + (\<Sum>f\<leftarrow>fs. int (count_list (pairs_of (tags f)) k))"
  by (induction fs arbitrary: c) (simp_all add: cnt_count_tag_pairs)

lemma cooccurrence_count_sum:
  "cooccurrence_count ds a b =
     (\<Sum>f\<leftarrow>map snd (store_files ds). int (count_list (pairs_of (tags f)) (sorted_pair a b)))"
proof -
  have "cooccurrence_count ds a b = cnt (tag_cooccurrence ds) (sorted_pair a b)"
    by (simp add: cooccurrence_count_def cnt_def)
  also have "\<dots> = cnt [] (sorted_pair a b) +
      (\<Sum>f\<leftarrow>map snd (store_files ds). int (count_list (pairs_of (tags f)) (sorted_pair a b)))"
    unfolding tag_cooccurrence_def by (rule cnt_files)
  also have "cnt [] (sorted_pair a b) = 0" by (simp add: cnt_def)
  finally show ?thesis by simp
qed

lemma no_repeated_tagsD:
  "no_repeated_tags ds \<Longrightarrow> f \<in> set (map snd (store_files ds)) \<Longrightarrow> distinct (tags f)"
  unfolding no_repeated_tags_def list_all_iff by blast

lemma pairs_of_members:
  "p \<in> set (pairs_of ts) \<Longrightarrow> \<exists>x \<in> set ts. \<exists>y \<in> set ts. p = sorted_pair x y"
  by (induction ts) auto

lemma pairs_of_absent:
  assumes "a \<notin> set ts \<or> b \<notin> set ts"
  shows "count_list (pairs_of ts) (sorted_pair a b) = 0"
proof -
  have "sorted_pair a b \<notin> set (pairs_of ts)"
  proof
    assume "sorted_pair a b \<in> set (pairs_of ts)"
    then obtain x y where "x \<in> set ts" "y \<in> set ts" "sorted_pair a b = sorted_pair x y"
      using pairs_of_members by blast
    then show False using assms by (auto simp: sorted_pair_eq_iff)
  qed
  then show ?thesis by (simp add: count_list_0_iff)
qed

lemma count_row:
  assumes "distinct rest" "a \<noteq> b"
  shows "count_list (map (sorted_pair t) rest) (sorted_pair a b)
     = (if (t = a \<and> b \<in> set rest) \<or> (t = b \<and> a \<in> set rest) then 1 else 0)"
  using assms(1)
proof (induction rest)
  case Nil
  then show ?case by simp
next
  case (Cons r rest)
  then show ?case using assms(2) by (auto simp: sorted_pair_eq_iff)
qed

lemma count_row_self:
  "t \<notin> set rest \<Longrightarrow> count_list (map (sorted_pair t) rest) (sorted_pair a a) = 0"
  by (induction rest) (auto simp: sorted_pair_eq_iff)

lemma distinct_pairs_count:
  assumes "distinct ts" "a \<noteq> b"
  shows "count_list (pairs_of ts) (sorted_pair a b) = (if a \<in> set ts \<and> b \<in> set ts then 1 else 0)"
  using assms(1)
proof (induction ts)
  case Nil
  then show ?case by simp
next
  case (Cons t ts)
  have d: "distinct ts" "t \<notin> set ts" using Cons.prems by simp_all
  have row: "count_list (map (sorted_pair t) ts) (sorted_pair a b)
     = (if (t = a \<and> b \<in> set ts) \<or> (t = b \<and> a \<in> set ts) then 1 else 0)"
    by (rule count_row [OF d(1) assms(2)])
  have rest: "count_list (pairs_of ts) (sorted_pair a b) = (if a \<in> set ts \<and> b \<in> set ts then 1 else 0)"
    by (rule Cons.IH [OF d(1)])
  show ?case
    using d(2) assms(2) by (auto simp: row rest)
qed

lemma distinct_pairs_count_self:
  "distinct ts \<Longrightarrow> count_list (pairs_of ts) (sorted_pair a a) = 0"
  by (induction ts) (simp_all add: count_row_self)

lemma cooccurrence_count_files:
  assumes "no_repeated_tags ds" "a \<noteq> b"
  shows "cooccurrence_count ds a b = int (length (files_with_both ds a b))"
proof -
  have "\<And>f. f \<in> set (map snd (store_files ds)) \<Longrightarrow>
      int (count_list (pairs_of (tags f)) (sorted_pair a b))
        = int (if a \<in> set (tags f) \<and> b \<in> set (tags f) then 1 else 0)"
    using no_repeated_tagsD [OF assms(1)] distinct_pairs_count [OF _ assms(2)] by simp
  then have "(\<Sum>f\<leftarrow>map snd (store_files ds). int (count_list (pairs_of (tags f)) (sorted_pair a b)))
      = (\<Sum>f\<leftarrow>map snd (store_files ds). int (if a \<in> set (tags f) \<and> b \<in> set (tags f) then 1 else 0))"
    by (intro arg_cong [where f = sum_list] map_cong refl)
  then show ?thesis
    unfolding cooccurrence_count_sum files_with_both_def by (simp only: sum_indicator)
qed

lemma cooccurrence_count_self:
  assumes "no_repeated_tags ds"
  shows "cooccurrence_count ds a a = 0"
proof -
  have "\<And>f. f \<in> set (map snd (store_files ds)) \<Longrightarrow>
      int (count_list (pairs_of (tags f)) (sorted_pair a a)) = 0"
    using no_repeated_tagsD [OF assms] distinct_pairs_count_self by simp
  then have "(\<Sum>f\<leftarrow>map snd (store_files ds). int (count_list (pairs_of (tags f)) (sorted_pair a a))) = 0"
    by (rule sum_list_zero)
  then show ?thesis
    unfolding cooccurrence_count_sum .
qed

lemma counter_item_count:
  assumes "((p, q), n) \<in> set (tag_cooccurrence ds)"
  shows "cooccurrence_count ds p q = n"
proof -
  have s: "sorted_keys (tag_cooccurrence ds)" by (rule tag_cooccurrence_sorted_keys)
  have "(p, q) \<in> fst ` set (tag_cooccurrence ds)" using assms by force
  then have k: "sorted_pair p q = (p, q)" using s by (auto simp: sorted_keys_def)
  have "map_of (tag_cooccurrence ds) (p, q) = Some n"
    using s assms by (simp add: sorted_keys_def)
  then show ?thesis by (simp add: cooccurrence_count_def k)
qed

subsection \<open>Tags mode: cooccurrence edges\<close>

lemma add_tag_nodes_facts:
  "adj_in_nodes (add_tag_nodes ds nx_empty)"
  "nx_get_edge_data (add_tag_nodes ds nx_empty) x y = None"
  "fst ` set (g_node (add_tag_nodes ds nx_empty)) = tag_id ` snd ` set (store_tags ds)"
proof -
  note f = fold_add_nodes [OF empty_inv, of tag_id tag_node_attrs "map snd (store_tags ds)"]
  show "adj_in_nodes (add_tag_nodes ds nx_empty)"
    using f by (simp add: add_tag_nodes_def)
  show "nx_get_edge_data (add_tag_nodes ds nx_empty) x y = None"
    using f empty_edge_data by (simp add: add_tag_nodes_def)
  have "fst ` set (g_node nx_empty) = {}" by (simp add: nx_empty_def)
  then show "fst ` set (g_node (add_tag_nodes ds nx_empty)) = tag_id ` snd ` set (store_tags ds)"
    using f by (simp add: add_tag_nodes_def)
qed

lemma add_cooccurrence_edge_request:
  "add_cooccurrence_edge ds item g = apply_request (cooccurrence_request ds item) g"
  by (simp add: add_cooccurrence_edge_def apply_request_def cooccurrence_request_def Let_def
      split: option.splits)

lemma build_tag_graph_requests:
  "build_tag_graph ds g =
     fold apply_request (map (cooccurrence_request ds) (tag_cooccurrence ds)) (add_tag_nodes ds g)"
proof -
  have "add_cooccurrence_edge ds = apply_request \<circ> cooccurrence_request ds"
    by (rule ext) (simp add: add_cooccurrence_edge_request fun_eq_iff)
  then show ?thesis by (simp add: build_tag_graph_def fold_map)
qed

lemma request_key_cooccurrence:
  "sorted_keys c \<Longrightarrow> item \<in> set c \<Longrightarrow> request_key (cooccurrence_request ds item) = fst item"
  by (auto simp: sorted_keys_def request_key_def cooccurrence_request_def)

lemma requested_cooccurrence:
  assumes "sorted_keys c"
  shows "requested (map (cooccurrence_request ds) c) x y =
    (case map_of c (sorted_pair x y) of
       None \<Rightarrow> None
     | Some n \<Rightarrow>
        (case snd (snd (cooccurrence_request ds (sorted_pair x y, n))) of
           None \<Rightarrow> None | Some attr \<Rightarrow> Some (dict_update [] attr)))"
proof -
  have h: "map (\<lambda>r. (request_key r, snd (snd r))) (map (cooccurrence_request ds) c)
      = map (\<lambda>kv. (fst kv, snd (snd (cooccurrence_request ds kv)))) c"
    using request_key_cooccurrence [OF assms] by simp
  show ?thesis
    unfolding requested_def h map_of_map_item by (simp split: option.splits)
qed

lemma build_tag_graph_edge_data:
  "nx_get_edge_data (build_tag_graph ds nx_empty) x y =
    (case map_of (tag_cooccurrence ds) (sorted_pair x y) of
       None \<Rightarrow> None
     | Some n \<Rightarrow>
        (case snd (snd (cooccurrence_request ds (sorted_pair x y, n))) of
           None \<Rightarrow> None | Some attr \<Rightarrow> Some (dict_update [] attr)))"
proof -
  have d: "distinct (map request_key (map (cooccurrence_request ds) (tag_cooccurrence ds)))"
  proof -
    have e: "map request_key (map (cooccurrence_request ds) (tag_cooccurrence ds))
        = map fst (tag_cooccurrence ds)"
      using request_key_cooccurrence [OF tag_cooccurrence_sorted_keys] by simp
    have "distinct (map fst (tag_cooccurrence ds))"
      using tag_cooccurrence_sorted_keys by (simp add: sorted_keys_def)
    then show ?thesis by (simp only: e)
  qed
  show ?thesis
    using fold_requests [OF add_tag_nodes_facts(1) add_tag_nodes_facts(2) d]
      requested_cooccurrence [OF tag_cooccurrence_sorted_keys]
    by (simp add: build_tag_graph_requests)
qed

lemma get_tag_in_store: "get_tag ds a = Some ta \<Longrightarrow> (a, ta) \<in> set (store_tags ds)"
  by (simp add: get_tag_def map_of_SomeD)

lemma wf_store_tag:
  assumes "wf_store ds" "get_tag ds a = Some ta"
  shows "tag_id ta = a" "0 \<le> usage_count ta"
  using assms(1) get_tag_in_store [OF assms(2)]
  by (auto simp: wf_store_def list_all_iff)

lemma tag_graph_has_node:
  assumes "wf_store ds" "get_tag ds a = Some ta"
  shows "nx_has_node (build_tag_graph ds nx_empty) a"
proof -
  have "a \<in> tag_id ` snd ` set (store_tags ds)"
    using get_tag_in_store [OF assms(2)] wf_store_tag(1) [OF assms] by force
  then have "a \<in> fst ` set (g_node (add_tag_nodes ds nx_empty))"
    by (simp add: add_tag_nodes_facts(3))
  then show ?thesis
    using fold_requests_keys [of "add_tag_nodes ds nx_empty"]
    unfolding has_node_keys build_tag_graph_requests by blast
qed

lemma cooccurrence_attrs_commute: "cooccurrence_attrs n t2 t1 = cooccurrence_attrs n t1 t2"
  by (simp add: cooccurrence_attrs_def strength_of_def max.commute)

lemma dict_update_cooccurrence_attrs:
  "dict_update [] (cooccurrence_attrs n t1 t2) = cooccurrence_attrs n t1 t2"
  by (simp add: dict_update_def cooccurrence_attrs_def)

lemma cooccurrence_request_attrs:
  assumes "get_tag ds a = Some ta" "get_tag ds b = Some tb"
  shows "snd (snd (cooccurrence_request ds (sorted_pair a b, n)))
     = (if 2 \<le> n then Some (cooccurrence_attrs n ta tb) else None)"
  using assms by (simp add: cooccurrence_request_def sorted_pair_def cooccurrence_attrs_commute)

lemma tag_graph_edge:
  assumes "get_tag ds a = Some ta" "get_tag ds b = Some tb"
  shows "nx_get_edge_data (build_tag_graph ds nx_empty) a b =
    (if 2 \<le> cooccurrence_count ds a b
     then Some (cooccurrence_attrs (cooccurrence_count ds a b) ta tb) else None)"
  by (simp add: build_tag_graph_edge_data cooccurrence_request_attrs [OF assms]
      dict_update_cooccurrence_attrs cooccurrence_count_def split: option.splits)

lemma strength_of_nonneg_usage:
  assumes "0 \<le> usage_count ta" "0 \<le> usage_count tb"
  shows "strength_of n ta tb =
    (if usage_count ta = 0 \<and> usage_count tb = 0 then AInt 0
     else AFloat (of_int n / of_int (max (usage_count ta) (usage_count tb))))"
  using assms by (auto simp: strength_of_def Let_def max_def)

text \<open>
  C1, amended. In tags mode, for every well-formed store and any two tags \<open>a\<close>, \<open>b\<close>
  of the store: both are nodes of the graph; there is an edge between them if and only if
  the counter of the pair is at least 2; the edge's weight is the counter, its strength is
  the counter divided by the larger of the two usage counts, or 0 if both usage counts
  are 0, and its type is cooccurrence. When no file lists a tag id twice, the counter of
  two distinct tags is the number of files that carry both; in particular two distinct
  tags that appear together on exactly one file then get no edge.
\<close>

theorem tag_graph_cooccurrence_edges:
  assumes "wf_store ds" "generate ds ''tags'' g0 = Inr g"
    and "get_tag ds a = Some ta" "get_tag ds b = Some tb"
  shows "nx_has_node g a \<and> nx_has_node g b \<and>
     (nx_has_edge g a b \<longleftrightarrow> 2 \<le> cooccurrence_count ds a b) \<and>
     (nx_has_edge g a b \<longrightarrow> nx_get_edge_data g a b = Some
        [(''weight'', AInt (cooccurrence_count ds a b)),
         (''strength'',
            if usage_count ta = 0 \<and> usage_count tb = 0 then AInt 0
            else AFloat (of_int (cooccurrence_count ds a b)
                          / of_int (max (usage_count ta) (usage_count tb)))),
         (''type'', AStr ''cooccurrence'')]) \<and>
     (no_repeated_tags ds \<and> a \<noteq> b \<longrightarrow>
        cooccurrence_count ds a b = int (length (files_with_both ds a b))) \<and>
     (no_repeated_tags ds \<and> a \<noteq> b \<and> length (files_with_both ds a b) = 1 \<longrightarrow>
        \<not> nx_has_edge g a b)"
proof -
  have g: "g = build_tag_graph ds nx_empty"
    using assms(2) by (simp add: generate_Inr)
  have e: "nx_get_edge_data g a b =
    (if 2 \<le> cooccurrence_count ds a b
     then Some (cooccurrence_attrs (cooccurrence_count ds a b) ta tb) else None)"
    unfolding g by (rule tag_graph_edge [OF assms(3,4)])
  have s: "strength_of (cooccurrence_count ds a b) ta tb =
    (if usage_count ta = 0 \<and> usage_count tb = 0 then AInt 0
     else AFloat (of_int (cooccurrence_count ds a b) / of_int (max (usage_count ta) (usage_count tb))))"
    by (rule strength_of_nonneg_usage [OF wf_store_tag(2) [OF assms(1,3)] wf_store_tag(2) [OF assms(1,4)]])
  have n: "nx_has_node g a" "nx_has_node g b"
    unfolding g by (rule tag_graph_has_node [OF assms(1,3)], rule tag_graph_has_node [OF assms(1,4)])
  have h: "nx_has_edge g a b \<longleftrightarrow> 2 \<le> cooccurrence_count ds a b"
    by (simp add: has_edge_edge_data e)
  have d: "nx_has_edge g a b \<longrightarrow> nx_get_edge_data g a b = Some
        [(''weight'', AInt (cooccurrence_count ds a b)),
         (''strength'', strength_of (cooccurrence_count ds a b) ta tb),
         (''type'', AStr ''cooccurrence'')]"
    by (simp add: h e cooccurrence_attrs_def)
  have c: "no_repeated_tags ds \<and> a \<noteq> b \<longrightarrow>
        cooccurrence_count ds a b = int (length (files_with_both ds a b))"
    using cooccurrence_count_files by blast
  have p: "no_repeated_tags ds \<and> a \<noteq> b \<and> length (files_with_both ds a b) = 1 \<longrightarrow>
        \<not> nx_has_edge g a b"
    using c h by simp
  show ?thesis using n h d c p unfolding s by blast
qed

theorem tag_graph_cooccurrence_edges_witness:
  "wf_store store_abc \<and> no_repeated_tags store_abc \<and>
   generate store_abc ''tags'' nx_empty = Inr graph_abc \<and>
   get_tag store_abc ''A'' = Some (snd (mk_tag ''A'' 5)) \<and>
   get_tag store_abc ''B'' = Some (snd (mk_tag ''B'' 3)) \<and>
   get_tag store_abc ''C'' = Some (snd (mk_tag ''C'' 1)) \<and>
   cooccurrence_count store_abc ''A'' ''B'' = 2 \<and>
   length (files_with_both store_abc ''A'' ''B'') = 2 \<and>
   nx_has_edge graph_abc ''A'' ''B'' \<and>
   nx_get_edge_data graph_abc ''A'' ''B'' =
     Some [(''weight'', AInt 2), (''strength'', AFloat (2 / 5)), (''type'', AStr ''cooccurrence'')] \<and>
   length (files_with_both store_abc ''A'' ''C'') = 1 \<and>
   \<not> nx_has_edge graph_abc ''A'' ''C''"
proof -
  have w: "wf_store store_abc" by code_simp
  have r: "no_repeated_tags store_abc" by code_simp
  have g: "generate store_abc ''tags'' nx_empty = Inr graph_abc"
    by (simp add: generate_Inr graph_abc_def)
  have a: "get_tag store_abc ''A'' = Some (snd (mk_tag ''A'' 5))" by code_simp
  have b: "get_tag store_abc ''B'' = Some (snd (mk_tag ''B'' 3))" by code_simp
  have c: "get_tag store_abc ''C'' = Some (snd (mk_tag ''C'' 1))" by code_simp
  have n: "cooccurrence_count store_abc ''A'' ''B'' = 2" by code_simp
  have l: "length (files_with_both store_abc ''A'' ''B'') = 2" by code_simp
  have m: "length (files_with_both store_abc ''A'' ''C'') = 1" by code_simp
  have u: "usage_count (snd (mk_tag ''A'' 5)) = 5" "usage_count (snd (mk_tag ''B'' 3)) = 3"
    by (simp_all add: mk_tag_def)
  show ?thesis
    using w r g a b c n l m u
      tag_graph_cooccurrence_edges [OF w g a b]
      tag_graph_cooccurrence_edges [OF w g a c]
    by simp
qed

text \<open>
  C1, as stated, fails where a file lists a tag id twice: with the single file
  \<open>[A, B, B]\<close> the tags A and B appear together on exactly one file, the pair is
  counted twice, and the edge A - B is added.
\<close>

theorem pair_on_one_file_gets_edge:
  "wf_store (one_file_store [''A'', ''B'', ''B'']) \<and>
   length (files_with_both (one_file_store [''A'', ''B'', ''B'']) ''A'' ''B'') = 1 \<and>
   generate (one_file_store [''A'', ''B'', ''B'']) ''tags'' nx_empty =
     Inr (build_tag_graph (one_file_store [''A'', ''B'', ''B'']) nx_empty) \<and>
   nx_has_edge (build_tag_graph (one_file_store [''A'', ''B'', ''B'']) nx_empty) ''A'' ''B''"
proof -
  have a: "wf_store (one_file_store [''A'', ''B'', ''B''])" by code_simp
  have b: "length (files_with_both (one_file_store [''A'', ''B'', ''B'']) ''A'' ''B'') = 1"
    by code_simp
  have c: "nx_has_edge (build_tag_graph (one_file_store [''A'', ''B'', ''B'']) nx_empty) ''A'' ''B''"
    by code_simp
  show ?thesis using a b c by (simp add: generate_Inr)
qed

text \<open>
  C10. There are stores with a file that lists a tag id twice on which the pairs are
  counted by list position: with the single file \<open>[A, A]\<close> the pair \<open>(A, A)\<close> is counted
  once and gets no edge; with the single file \<open>[A, A, A]\<close> it is counted three times and
  tag A gets a cooccurrence edge to itself; with the single file \<open>[A, A, B, B]\<close> the pair
  \<open>(A, B)\<close> is counted four times and gets an edge from that one file alone.
\<close>

theorem repeated_tag_ids_counted_by_position:
  "tag_cooccurrence (one_file_store [''A'', ''A'']) = [((''A'', ''A''), 1)] \<and>
   generate (one_file_store [''A'', ''A'']) ''tags'' nx_empty =
     Inr (build_tag_graph (one_file_store [''A'', ''A'']) nx_empty) \<and>
   \<not> nx_has_edge (build_tag_graph (one_file_store [''A'', ''A'']) nx_empty) ''A'' ''A'' \<and>
   tag_cooccurrence (one_file_store [''A'', ''A'', ''A'']) = [((''A'', ''A''), 3)] \<and>
   generate (one_file_store [''A'', ''A'', ''A'']) ''tags'' nx_empty =
     Inr (build_tag_graph (one_file_store [''A'', ''A'', ''A'']) nx_empty) \<and>
   nx_get_edge_data (build_tag_graph (one_file_store [''A'', ''A'', ''A'']) nx_empty) ''A'' ''A'' =
     Some [(''weight'', AInt 3), (''strength'', AFloat 3), (''type'', AStr ''cooccurrence'')] \<and>
   tag_cooccurrence (one_file_store [''A'', ''A'', ''B'', ''B'']) =
     [((''A'', ''A''), 1), ((''A'', ''B''), 4), ((''B'', ''B''), 1)] \<and>
   generate (one_file_store [''A'', ''A'', ''B'', ''B'']) ''tags'' nx_empty =
     Inr (build_tag_graph (one_file_store [''A'', ''A'', ''B'', ''B'']) nx_empty) \<and>
   nx_get_edge_data (build_tag_graph (one_file_store [''A'', ''A'', ''B'', ''B'']) nx_empty) ''A'' ''B'' =
     Some [(''weight'', AInt 4), (''strength'', AFloat 4), (''type'', AStr ''cooccurrence'')]"
proof -
  have a: "tag_cooccurrence (one_file_store [''A'', ''A'']) = [((''A'', ''A''), 1)]"
    by code_simp
  have b: "\<not> nx_has_edge (build_tag_graph (one_file_store [''A'', ''A'']) nx_empty) ''A'' ''A''"
    by code_simp
  have c: "tag_cooccurrence (one_file_store [''A'', ''A'', ''A'']) = [((''A'', ''A''), 3)]"
    by code_simp
  have d: "nx_get_edge_data (build_tag_graph (one_file_store [''A'', ''A'', ''A'']) nx_empty) ''A'' ''A'' =
     Some [(''weight'', AInt 3), (''strength'', AFloat 3), (''type'', AStr ''cooccurrence'')]"
    by code_simp
  have e: "tag_cooccurrence (one_file_store [''A'', ''A'', ''B'', ''B'']) =
     [((''A'', ''A''), 1), ((''A'', ''B''), 4), ((''B'', ''B''), 1)]"
    by code_simp
  have f: "nx_get_edge_data (build_tag_graph (one_file_store [''A'', ''A'', ''B'', ''B'']) nx_empty) ''A'' ''B'' =
     Some [(''weight'', AInt 4), (''strength'', AFloat 4), (''type'', AStr ''cooccurrence'')]"
    by code_simp
  show ?thesis using a b c d e f by (simp add: generate_Inr)
qed

text \<open>
  C9. Calling \<^verbatim>\<open>generate("tags")\<close> twice in a row on unchanged store data gives the
  same graph: the second call clears what the first one built and builds it again, so
  the graph after the second call equals the graph after the first (same nodes, same
  edges, same payloads), whatever graph was held before.
\<close>

theorem generate_tags_idempotent:
  "\<exists>g1. generate ds ''tags'' g = Inr g1 \<and> generate ds ''tags'' g1 = Inr g1"
  by (simp add: generate_Inr)

subsection \<open>Files mode: similarity edges\<close>

lemma add_similarity_edge_request:
  "add_similarity_edge file1 file2 g = apply_request (similarity_request (file1, file2)) g"
  by (simp add: add_similarity_edge_def apply_request_def similarity_request_def
      similarity_payload_def Let_def)

lemma add_similarity_edges_pairs:
  "add_similarity_edges fs g = fold apply_request (map similarity_request (ordered_pairs fs)) g"
proof (induction fs arbitrary: g)
  case Nil
  then show ?case by simp
next
  case (Cons f rest)
  have "fold (add_similarity_edge f) rest g
      = fold apply_request (map similarity_request (map (Pair f) rest)) g"
  proof -
    have "add_similarity_edge f = apply_request \<circ> (similarity_request \<circ> Pair f)"
      by (rule ext) (simp add: add_similarity_edge_request fun_eq_iff)
    then show ?thesis by (simp add: fold_map comp_assoc)
  qed
  then show ?case by (simp add: Cons.IH)
qed

lemma ordered_pairs_members:
  "p \<in> set (ordered_pairs fs) \<Longrightarrow> fst p \<in> set fs \<and> snd p \<in> set fs"
  by (induction fs) auto

lemma ordered_pairs_cover:
  "a \<in> set fs \<Longrightarrow> b \<in> set fs \<Longrightarrow> a \<noteq> b \<Longrightarrow>
   (a, b) \<in> set (ordered_pairs fs) \<or> (b, a) \<in> set (ordered_pairs fs)"
  by (induction fs) auto

lemma ordered_pairs_keys_distinct:
  "distinct (map k fs) \<Longrightarrow>
   distinct (map (\<lambda>p. sorted_pair (k (fst p)) (k (snd p))) (ordered_pairs fs))"
proof (induction fs)
  case Nil
  then show ?case by simp
next
  case (Cons f rest)
  have d: "distinct (map k rest)" "k f \<notin> k ` set rest"
    using Cons.prems by simp_all
  have row: "distinct (map (\<lambda>r. sorted_pair (k f) (k r)) rest)"
  proof -
    have "inj_on (\<lambda>r. sorted_pair (k f) (k r)) (set rest)"
      using d by (auto simp: inj_on_def sorted_pair_eq_iff distinct_map)
    then show ?thesis using d(1) by (simp add: distinct_map)
  qed
  have disj: "set (map (\<lambda>r. sorted_pair (k f) (k r)) rest)
      \<inter> set (map (\<lambda>p. sorted_pair (k (fst p)) (k (snd p))) (ordered_pairs rest)) = {}"
  proof (rule ccontr)
    assume "\<not> ?thesis"
    then obtain z where z: "z \<in> set (map (\<lambda>r. sorted_pair (k f) (k r)) rest)"
      "z \<in> set (map (\<lambda>p. sorted_pair (k (fst p)) (k (snd p))) (ordered_pairs rest))"
      by blast
    from z(1) [unfolded set_map] obtain r where r: "z = sorted_pair (k f) (k r)" "r \<in> set rest"
      by (rule imageE)
    from z(2) [unfolded set_map] obtain p where p: "z = sorted_pair (k (fst p)) (k (snd p))"
      "p \<in> set (ordered_pairs rest)"
      by (rule imageE)
    have a: "r \<in> set rest" "p \<in> set (ordered_pairs rest)"
      "sorted_pair (k f) (k r) = sorted_pair (k (fst p)) (k (snd p))"
      using r p by simp_all
    have "fst p \<in> set rest" "snd p \<in> set rest"
      using ordered_pairs_members [OF a(2)] by simp_all
    then show False using a(3) d(2) by (auto simp: sorted_pair_eq_iff)
  qed
  have e: "map (\<lambda>p. sorted_pair (k (fst p)) (k (snd p))) (ordered_pairs (f # rest))
      = map (\<lambda>r. sorted_pair (k f) (k r)) rest
        @ map (\<lambda>p. sorted_pair (k (fst p)) (k (snd p))) (ordered_pairs rest)"
    by (simp add: comp_def)
  show ?case
    unfolding e distinct_append using row disj Cons.IH [OF d(1)] by blast
qed

lemma calculate_tag_similarity_commute:
  "calculate_tag_similarity f1 f2 = calculate_tag_similarity f2 f1"
  by (simp add: calculate_tag_similarity_def Let_def Int_commute Un_commute disj_commute)

lemma calculate_tag_similarity_jaccard:
  "calculate_tag_similarity f1 f2 = jaccard (set (tags f1)) (set (tags f2))"
proof (cases "tags f1 = [] \<or> tags f2 = []")
  case True
  then show ?thesis by (auto simp: calculate_tag_similarity_def jaccard_def)
next
  case False
  then have "set (tags f1) \<union> set (tags f2) \<noteq> {}" by simp
  then have "0 < card (set (tags f1) \<union> set (tags f2))"
    by (simp add: card_gt_0_iff)
  then show ?thesis using False
    by (simp add: calculate_tag_similarity_def jaccard_def Let_def)
qed

lemma similarity_request_key:
  "request_key (similarity_request p) = sorted_pair (file_id (fst p)) (file_id (snd p))"
  by (simp add: request_key_def similarity_request_def)

lemma dict_update_similarity_attrs: "dict_update [] (similarity_attrs s) = similarity_attrs s"
  by (simp add: dict_update_def similarity_attrs_def)

lemma similarity_payload_commute: "similarity_payload f2 f1 = similarity_payload f1 f2"
  by (simp add: similarity_payload_def calculate_tag_similarity_commute [of f2])

lemma requested_similarity:
  assumes "distinct (map file_id fs)" "f1 \<in> set fs" "f2 \<in> set fs" "file_id f1 \<noteq> file_id f2"
  shows "requested (map similarity_request (ordered_pairs fs)) (file_id f1) (file_id f2) =
    (if calculate_tag_similarity f1 f2 > 3 / 10
     then Some (similarity_attrs (calculate_tag_similarity f1 f2)) else None)"
proof -
  let ?entry = "\<lambda>p. (sorted_pair (file_id (fst p)) (file_id (snd p)), similarity_payload (fst p) (snd p))"
  let ?al = "map ?entry (ordered_pairs fs)"
  have al: "map (\<lambda>r. (request_key r, snd (snd r))) (map similarity_request (ordered_pairs fs)) = ?al"
    by (simp add: request_key_def similarity_request_def)
  have dist: "distinct (map fst ?al)"
    using ordered_pairs_keys_distinct [OF assms(1)] by (simp add: comp_def)
  have "f1 \<noteq> f2" using assms(4) by auto
  then consider "(f1, f2) \<in> set (ordered_pairs fs)" | "(f2, f1) \<in> set (ordered_pairs fs)"
    using ordered_pairs_cover [OF assms(2,3)] by blast
  then have "(sorted_pair (file_id f1) (file_id f2), similarity_payload f1 f2) \<in> set ?al"
  proof cases
    case 1
    then have "?entry (f1, f2) \<in> set ?al" by (simp only: set_map) (rule imageI)
    then show ?thesis by simp
  next
    case 2
    then have "?entry (f2, f1) \<in> set ?al" by (simp only: set_map) (rule imageI)
    then show ?thesis
      by (simp add: sorted_pair_commute [of "file_id f2"] similarity_payload_commute [of f2])
  qed
  then have "map_of ?al (sorted_pair (file_id f1) (file_id f2)) = Some (similarity_payload f1 f2)"
    using dist by (rule map_of_is_SomeI [rotated])
  then show ?thesis
    unfolding requested_def al
    by (simp add: similarity_payload_def dict_update_similarity_attrs)
qed

lemma add_file_nodes_facts:
  "adj_in_nodes (add_file_nodes ds nx_empty)"
  "nx_get_edge_data (add_file_nodes ds nx_empty) x y = None"
  "fst ` set (g_node (add_file_nodes ds nx_empty)) = file_id ` snd ` set (store_files ds)"
proof -
  note f = fold_add_nodes [OF empty_inv, of file_id file_node_attrs "map snd (store_files ds)"]
  show "adj_in_nodes (add_file_nodes ds nx_empty)"
    using f by (simp add: add_file_nodes_def)
  show "nx_get_edge_data (add_file_nodes ds nx_empty) x y = None"
    using f empty_edge_data by (simp add: add_file_nodes_def)
  have "fst ` set (g_node nx_empty) = {}" by (simp add: nx_empty_def)
  then show "fst ` set (g_node (add_file_nodes ds nx_empty)) = file_id ` snd ` set (store_files ds)"
    using f by (simp add: add_file_nodes_def)
qed

lemma get_file_in_store: "get_file ds x = Some f \<Longrightarrow> (x, f) \<in> set (store_files ds)"
  by (simp add: get_file_def map_of_SomeD)

lemma wf_store_file:
  assumes "wf_store ds" "get_file ds x = Some f"
  shows "file_id f = x" "f \<in> set (map snd (store_files ds))"
  using assms(1) get_file_in_store [OF assms(2)]
  by (auto simp: wf_store_def list_all_iff intro: rev_image_eqI)

lemma wf_store_file_ids: "wf_store ds \<Longrightarrow> distinct (map file_id (map snd (store_files ds)))"
proof -
  assume w: "wf_store ds"
  have e: "map file_id (map snd (store_files ds)) = map fst (store_files ds)"
    using w by (simp add: wf_store_def list_all_iff)
  have "distinct (map fst (store_files ds))"
    using w by (simp add: wf_store_def)
  then show ?thesis by (simp only: e)
qed

lemma file_graph_edge:
  assumes "wf_store ds" "get_file ds x = Some f1" "get_file ds y = Some f2" "x \<noteq> y"
  shows "nx_get_edge_data (build_file_graph ds nx_empty) x y =
    (if calculate_tag_similarity f1 f2 > 3 / 10
     then Some (similarity_attrs (calculate_tag_similarity f1 f2)) else None)"
proof -
  let ?fs = "map snd (store_files ds)"
  have ids: "file_id f1 = x" "file_id f2 = y"
    using wf_store_file(1) [OF assms(1)] assms(2,3) by simp_all
  have d: "distinct (map request_key (map similarity_request (ordered_pairs ?fs)))"
    using ordered_pairs_keys_distinct [OF wf_store_file_ids [OF assms(1)]]
    by (simp add: similarity_request_key comp_def)
  have "nx_get_edge_data (build_file_graph ds nx_empty) x y
      = requested (map similarity_request (ordered_pairs ?fs)) x y"
    using fold_requests [OF add_file_nodes_facts(1) add_file_nodes_facts(2) d]
    by (simp add: build_file_graph_def add_similarity_edges_pairs)
  then show ?thesis
    using requested_similarity [OF wf_store_file_ids [OF assms(1)]
        wf_store_file(2) [OF assms(1,2)] wf_store_file(2) [OF assms(1,3)]] assms(4)
    by (simp add: ids)
qed

lemma file_graph_has_node:
  assumes "wf_store ds" "get_file ds x = Some f"
  shows "nx_has_node (build_file_graph ds nx_empty) x"
proof -
  have "x \<in> file_id ` snd ` set (store_files ds)"
    using wf_store_file [OF assms] by force
  then have "x \<in> fst ` set (g_node (add_file_nodes ds nx_empty))"
    by (simp add: add_file_nodes_facts(3))
  then show ?thesis
    using fold_requests_keys [of "add_file_nodes ds nx_empty"]
    unfolding has_node_keys build_file_graph_def add_similarity_edges_pairs by blast
qed

text \<open>
  C5. In files mode, for every well-formed store and any two files with distinct ids:
  both are nodes of the graph; the similarity the code computes is the Jaccard similarity
  of their tag-id sets (intersection size over union size, 0 if either set is empty);
  there is an edge between them if and only if that similarity is strictly greater than
  0.3; and the edge's weight is that similarity, its type similarity.
\<close>

theorem file_graph_similarity_edges:
  assumes "wf_store ds" "generate ds ''files'' g0 = Inr g"
    and "get_file ds x = Some f1" "get_file ds y = Some f2" "x \<noteq> y"
  shows "nx_has_node g x \<and> nx_has_node g y \<and>
     calculate_tag_similarity f1 f2 = jaccard (set (tags f1)) (set (tags f2)) \<and>
     (nx_has_edge g x y \<longleftrightarrow> 3 / 10 < jaccard (set (tags f1)) (set (tags f2))) \<and>
     (nx_has_edge g x y \<longrightarrow> nx_get_edge_data g x y = Some
        [(''weight'', AFloat (jaccard (set (tags f1)) (set (tags f2)))),
         (''type'', AStr ''similarity'')])"
proof -
  have g: "g = build_file_graph ds nx_empty"
    using assms(2) by (simp add: generate_Inr)
  have e: "nx_get_edge_data g x y =
    (if jaccard (set (tags f1)) (set (tags f2)) > 3 / 10
     then Some (similarity_attrs (jaccard (set (tags f1)) (set (tags f2)))) else None)"
    unfolding g using file_graph_edge [OF assms(1,3,4,5)]
    by (simp add: calculate_tag_similarity_jaccard)
  have n: "nx_has_node g x" "nx_has_node g y"
    unfolding g by (rule file_graph_has_node [OF assms(1,3)], rule file_graph_has_node [OF assms(1,4)])
  show ?thesis
    using n by (simp add: has_edge_edge_data e calculate_tag_similarity_jaccard similarity_attrs_def)
qed

theorem file_graph_similarity_edges_witness:
  "wf_store store_abc \<and>
   generate store_abc ''files'' nx_empty = Inr (build_file_graph store_abc nx_empty) \<and>
   get_file store_abc ''F1'' = Some (snd (mk_file ''F1'' [''A'', ''B''])) \<and>
   get_file store_abc ''F3'' = Some (snd (mk_file ''F3'' [''A'', ''C''])) \<and>
   get_file store_abc ''F4'' = Some (snd (mk_file ''F4'' [''A''])) \<and>
   jaccard {''A'', ''B''} {''A'', ''C''} = 1 / 3 \<and>
   nx_get_edge_data (build_file_graph store_abc nx_empty) ''F1'' ''F3'' =
     Some [(''weight'', AFloat (1 / 3)), (''type'', AStr ''similarity'')] \<and>
   jaccard {''A'', ''C''} {''A''} = 1 / 2 \<and>
   nx_has_edge (build_file_graph store_abc nx_empty) ''F3'' ''F4''"
proof -
  have w: "wf_store store_abc" by code_simp
  have g: "generate store_abc ''files'' nx_empty = Inr (build_file_graph store_abc nx_empty)"
    by (simp add: generate_Inr)
  have a: "get_file store_abc ''F1'' = Some (snd (mk_file ''F1'' [''A'', ''B'']))" by code_simp
  have b: "get_file store_abc ''F3'' = Some (snd (mk_file ''F3'' [''A'', ''C'']))" by code_simp
  have c: "get_file store_abc ''F4'' = Some (snd (mk_file ''F4'' [''A'']))" by code_simp
  have j: "jaccard {''A'', ''B''} {''A'', ''C''} = 1 / 3" "jaccard {''A'', ''C''} {''A''} = 1 / 2"
    by code_simp+
  have t: "tags (snd (mk_file ''F1'' [''A'', ''B''])) = [''A'', ''B'']"
    "tags (snd (mk_file ''F3'' [''A'', ''C''])) = [''A'', ''C'']"
    "tags (snd (mk_file ''F4'' [''A''])) = [''A'']"
    by (simp_all add: mk_file_def)
  have x: "''F1'' \<noteq> ''F3''" "''F3'' \<noteq> ''F4''" by simp_all
  show ?thesis
    using w g a b c j
      file_graph_similarity_edges [OF w g a b x(1)]
      file_graph_similarity_edges [OF w g b c x(2)]
    by (simp add: t)
qed

subsection \<open>Invariants of the edge payloads\<close>

lemma edges_sat_empty: "edges_sat P nx_empty"
  by (simp add: edges_sat_def empty_inv empty_edge_data)

lemma edges_sat_add_node: "edges_sat P g \<Longrightarrow> edges_sat P (nx_add_node g n a)"
  by (simp add: edges_sat_def add_node_inv add_node_edge_data)

lemma edges_sat_add_edge:
  assumes "edges_sat P g" "P []" "\<And>d0. P d0 \<Longrightarrow> P (dict_update d0 a)"
  shows "edges_sat P (nx_add_edge g u v a)"
proof -
  have i: "adj_in_nodes g" using assms(1) by (simp add: edges_sat_def)
  have old: "P (case nx_get_edge_data g u v of None \<Rightarrow> [] | Some d \<Rightarrow> d)"
    using assms(1,2) by (auto simp: edges_sat_def split: option.splits)
  have new: "P (dict_update (case nx_get_edge_data g u v of None \<Rightarrow> [] | Some d \<Rightarrow> d) a)"
    by (rule assms(3) [OF old])
  show ?thesis
    using assms(1) new
    by (auto simp: edges_sat_def add_edge_inv add_edge_edge_data [OF i] split: if_splits)
qed

lemma edges_sat_build_tag_graph:
  assumes "P []"
    and "\<forall>item t1 t2 d0. item \<in> set (tag_cooccurrence ds) \<longrightarrow> 2 \<le> snd item \<longrightarrow>
          get_tag ds (fst (fst item)) = Some t1 \<longrightarrow> get_tag ds (snd (fst item)) = Some t2 \<longrightarrow>
          P d0 \<longrightarrow> P (dict_update d0 (cooccurrence_attrs (snd item) t1 t2))"
    and "edges_sat P g"
  shows "edges_sat P (build_tag_graph ds g)"
proof -
  have n: "edges_sat P (add_tag_nodes ds g)"
    unfolding add_tag_nodes_def
    by (rule fold_preserves [where I = "edges_sat P"]) (simp_all add: assms(3) edges_sat_add_node)
  show ?thesis
    unfolding build_tag_graph_def
  proof (rule fold_preserves [where I = "edges_sat P", OF n])
    fix item t
    assume m: "item \<in> set (tag_cooccurrence ds)" and e: "edges_sat P t"
    show "edges_sat P (add_cooccurrence_edge ds item t)"
    proof (cases "2 \<le> snd item")
      case False
      then show ?thesis using e by (simp add: add_cooccurrence_edge_def Let_def)
    next
      case True
      show ?thesis
      proof (cases "get_tag ds (fst (fst item))")
        case None
        then show ?thesis using e by (simp add: add_cooccurrence_edge_def Let_def)
      next
        case t1: (Some tag1)
        show ?thesis
        proof (cases "get_tag ds (snd (fst item))")
          case None
          then show ?thesis using e t1 by (simp add: add_cooccurrence_edge_def Let_def)
        next
          case t2: (Some tag2)
          have c: "\<And>d0. P d0 \<Longrightarrow> P (dict_update d0 (cooccurrence_attrs (snd item) tag1 tag2))"
            using assms(2) m True t1 t2 by blast
          have "edges_sat P (nx_add_edge t (fst (fst item)) (snd (fst item))
              (cooccurrence_attrs (snd item) tag1 tag2))"
            using e assms(1) c by (rule edges_sat_add_edge)
          then show ?thesis using True t1 t2 by (simp add: add_cooccurrence_edge_def Let_def)
        qed
      qed
    qed
  qed
qed

lemma edges_sat_similarity_edge:
  assumes "P []"
    and "\<forall>f1 f2 d0. P d0 \<longrightarrow> P (dict_update d0 (similarity_attrs (calculate_tag_similarity f1 f2)))"
    and "edges_sat P g"
  shows "edges_sat P (add_similarity_edge f1 f2 g)"
proof (cases "calculate_tag_similarity f1 f2 > 3 / 10")
  case False
  then show ?thesis using assms(3) by (simp add: add_similarity_edge_def Let_def)
next
  case True
  have c: "\<And>d0. P d0 \<Longrightarrow> P (dict_update d0 (similarity_attrs (calculate_tag_similarity f1 f2)))"
    using assms(2) by blast
  have "edges_sat P (nx_add_edge g (file_id f1) (file_id f2)
      (similarity_attrs (calculate_tag_similarity f1 f2)))"
    using assms(3,1) c by (rule edges_sat_add_edge)
  then show ?thesis using True by (simp add: add_similarity_edge_def Let_def)
qed

lemma edges_sat_similarity_edges:
  assumes "P []"
    and "\<forall>f1 f2 d0. P d0 \<longrightarrow> P (dict_update d0 (similarity_attrs (calculate_tag_similarity f1 f2)))"
  shows "edges_sat P g \<Longrightarrow> edges_sat P (add_similarity_edges fs g)"
proof (induction fs arbitrary: g)
  case Nil
  then show ?case by simp
next
  case (Cons f rest)
  have "edges_sat P (fold (add_similarity_edge f) rest g)"
  proof (rule fold_preserves [where I = "edges_sat P", OF Cons.prems])
    fix f2 t
    assume "edges_sat P t"
    with assms show "edges_sat P (add_similarity_edge f f2 t)"
      by (rule edges_sat_similarity_edge)
  qed
  then show ?case by (simp add: Cons.IH)
qed

lemma edges_sat_build_file_graph:
  assumes "P []"
    and "\<forall>f1 f2 d0. P d0 \<longrightarrow> P (dict_update d0 (similarity_attrs (calculate_tag_similarity f1 f2)))"
    and "edges_sat P g"
  shows "edges_sat P (build_file_graph ds g)"
proof -
  have "edges_sat P (add_file_nodes ds g)"
    unfolding add_file_nodes_def
    by (rule fold_preserves [where I = "edges_sat P"]) (simp_all add: assms(3) edges_sat_add_node)
  with assms(1,2) show ?thesis
    unfolding build_file_graph_def by (rule edges_sat_similarity_edges)
qed

lemma edges_sat_link_tags_and_files:
  assumes "P []" "\<forall>d0. P d0 \<longrightarrow> P (dict_update d0 [(''type'', AStr ''tagged'')])"
    and "edges_sat P g"
  shows "edges_sat P (link_tags_and_files ds g)"
  unfolding link_tags_and_files_def
proof (rule fold_preserves [where I = "edges_sat P", OF assms(3)])
  fix fl t
  assume "edges_sat P t"
  then show "edges_sat P (fold (link_file_tag fl) (tags fl) t)"
  proof (rule fold_preserves [where I = "edges_sat P"])
    fix tg t'
    assume e: "edges_sat P t'"
    have c: "\<And>d0. P d0 \<Longrightarrow> P (dict_update d0 [(''type'', AStr ''tagged'')])"
      using assms(2) by blast
    have "edges_sat P (nx_add_edge t' (file_id fl) tg [(''type'', AStr ''tagged'')])"
      using e assms(1) c by (rule edges_sat_add_edge)
    then show "edges_sat P (link_file_tag fl tg t')"
      using e by (simp add: link_file_tag_def)
  qed
qed

lemma edges_sat_generate:
  assumes "P []"
    and "\<forall>item t1 t2 d0. item \<in> set (tag_cooccurrence ds) \<longrightarrow> 2 \<le> snd item \<longrightarrow>
          get_tag ds (fst (fst item)) = Some t1 \<longrightarrow> get_tag ds (snd (fst item)) = Some t2 \<longrightarrow>
          P d0 \<longrightarrow> P (dict_update d0 (cooccurrence_attrs (snd item) t1 t2))"
    and "\<forall>f1 f2 d0. P d0 \<longrightarrow> P (dict_update d0 (similarity_attrs (calculate_tag_similarity f1 f2)))"
    and "\<forall>d0. P d0 \<longrightarrow> P (dict_update d0 [(''type'', AStr ''tagged'')])"
    and "generate ds mode g0 = Inr g"
  shows "edges_sat P g"
proof -
  have t: "edges_sat P (build_tag_graph ds nx_empty)"
    using assms(1,2) edges_sat_empty by (rule edges_sat_build_tag_graph)
  have f: "edges_sat P (build_file_graph ds nx_empty)"
    using assms(1,3) edges_sat_empty by (rule edges_sat_build_file_graph)
  have tf: "edges_sat P (build_file_graph ds (build_tag_graph ds nx_empty))"
    using assms(1,3) t by (rule edges_sat_build_file_graph)
  have l: "edges_sat P (link_tags_and_files ds (build_file_graph ds (build_tag_graph ds nx_empty)))"
    using assms(1,4) tf by (rule edges_sat_link_tags_and_files)
  have "edges_sat P (if mode = ''tags'' then build_tag_graph ds nx_empty
      else if mode = ''files'' then build_file_graph ds nx_empty
      else if mode = ''full'' then link_tags_and_files ds (build_file_graph ds (build_tag_graph ds nx_empty))
      else nx_empty)"
    using t f l edges_sat_empty by simp
  then show ?thesis using assms(5) by (simp add: generate_Inr)
qed

subsection \<open>The ranges of the edge payloads\<close>

lemma map_of_dict_update1:
  "map_of (dict_update d0 [(k1, v1)]) = (map_of d0)(k1 \<mapsto> v1)"
  by (simp add: dict_update_def update_conv')

lemma map_of_dict_update2:
  "map_of (dict_update d0 [(k1, v1), (k2, v2)]) = (map_of d0)(k1 \<mapsto> v1, k2 \<mapsto> v2)"
  by (simp add: dict_update_def update_conv')

lemma map_of_dict_update3:
  "map_of (dict_update d0 [(k1, v1), (k2, v2), (k3, v3)]) = (map_of d0)(k1 \<mapsto> v1, k2 \<mapsto> v2, k3 \<mapsto> v3)"
  by (simp add: dict_update_def update_conv')

lemma payload_ok_tagged: "payload_ok b (dict_update d0 [(''type'', AStr ''tagged'')])"
  by (simp add: payload_ok_def map_of_dict_update1)

lemma payload_ok_similarity:
  "0 \<le> s \<Longrightarrow> s \<le> 1 \<Longrightarrow> payload_ok b (dict_update d0 (similarity_attrs s))"
  by (simp add: payload_ok_def similarity_attrs_def map_of_dict_update2 in_unit_interval_def)

lemma payload_ok_cooccurrence:
  "nonneg_number (Some (strength_of n t1 t2)) \<Longrightarrow>
   (b \<Longrightarrow> in_unit_interval (Some (strength_of n t1 t2))) \<Longrightarrow>
   payload_ok b (dict_update d0 (cooccurrence_attrs n t1 t2))"
  by (simp add: payload_ok_def cooccurrence_attrs_def map_of_dict_update3)

lemma similarity_range:
  "0 \<le> calculate_tag_similarity f1 f2 \<and> calculate_tag_similarity f1 f2 \<le> 1"
proof -
  have "card (set (tags f1) \<inter> set (tags f2)) \<le> card (set (tags f1) \<union> set (tags f2))"
    by (rule card_mono) auto
  then have "(of_nat (card (set (tags f1) \<inter> set (tags f2))) :: rat)
      \<le> of_nat (card (set (tags f1) \<union> set (tags f2)))"
    by (simp only: of_nat_le_iff)
  then show ?thesis
    by (simp add: calculate_tag_similarity_def Let_def divide_le_eq_1)
qed

lemma strength_nonneg: "0 \<le> n \<Longrightarrow> nonneg_number (Some (strength_of n t1 t2))"
  by (simp add: strength_of_def Let_def nonneg_number_def)

lemma strength_unit:
  "0 \<le> n \<Longrightarrow> n \<le> max (usage_count t1) (usage_count t2) \<Longrightarrow>
   in_unit_interval (Some (strength_of n t1 t2))"
  by (simp add: strength_of_def Let_def in_unit_interval_def divide_le_eq_1)

lemma usage_covers_filesD:
  "usage_covers_files ds \<Longrightarrow> get_tag ds p = Some t \<Longrightarrow>
   int (length (files_with ds p)) \<le> usage_count t"
proof -
  assume u: "usage_covers_files ds" and g: "get_tag ds p = Some t"
  have "(p, t) \<in> set (store_tags ds)" using g by (rule get_tag_in_store)
  then show ?thesis using u unfolding usage_covers_files_def list_all_iff by force
qed

lemma counter_item_bounded:
  assumes "no_repeated_tags ds" "usage_covers_files ds"
    and "((p, q), n) \<in> set (tag_cooccurrence ds)" "2 \<le> n" "get_tag ds p = Some t1"
  shows "n \<le> usage_count t1"
proof -
  have c: "cooccurrence_count ds p q = n" by (rule counter_item_count [OF assms(3)])
  have "p \<noteq> q"
    using cooccurrence_count_self [OF assms(1), of p] c assms(4) by auto
  then have "n = int (length (files_with_both ds p q))"
    using cooccurrence_count_files [OF assms(1)] c by simp
  also have "\<dots> \<le> int (length (files_with ds p))"
    unfolding files_with_both_def files_with_def of_nat_le_iff by (rule length_filter_conj)
  also have "\<dots> \<le> usage_count t1"
    by (rule usage_covers_filesD [OF assms(2,5)])
  finally show ?thesis .
qed

lemma payload_ok_generate:
  assumes "b \<Longrightarrow> no_repeated_tags ds \<and> usage_covers_files ds" "generate ds mode g0 = Inr g"
  shows "edges_sat (payload_ok b) g"
proof -
  have c: "\<forall>item t1 t2 d0. item \<in> set (tag_cooccurrence ds) \<longrightarrow> 2 \<le> snd item \<longrightarrow>
          get_tag ds (fst (fst item)) = Some t1 \<longrightarrow> get_tag ds (snd (fst item)) = Some t2 \<longrightarrow>
          payload_ok b d0 \<longrightarrow> payload_ok b (dict_update d0 (cooccurrence_attrs (snd item) t1 t2))"
  proof (intro allI impI)
    fix item t1 t2 d0
    assume m: "item \<in> set (tag_cooccurrence ds)" and n: "2 \<le> snd item"
      and t1: "get_tag ds (fst (fst item)) = Some t1"
    have m': "((fst (fst item), snd (fst item)), snd item) \<in> set (tag_cooccurrence ds)"
      using m by simp
    have nn: "nonneg_number (Some (strength_of (snd item) t1 t2))"
      using n by (simp add: strength_nonneg)
    have un: "b \<Longrightarrow> in_unit_interval (Some (strength_of (snd item) t1 t2))"
    proof -
      assume b
      then have "snd item \<le> usage_count t1"
        using counter_item_bounded [OF _ _ m' n t1] assms(1) by simp
      then show ?thesis using n by (simp add: strength_unit)
    qed
    show "payload_ok b (dict_update d0 (cooccurrence_attrs (snd item) t1 t2))"
      by (rule payload_ok_cooccurrence [OF nn un])
  qed
  have s: "\<forall>f1 f2 d0. payload_ok b d0 \<longrightarrow>
      payload_ok b (dict_update d0 (similarity_attrs (calculate_tag_similarity f1 f2)))"
    using similarity_range by (simp add: payload_ok_similarity)
  have t: "\<forall>d0. payload_ok b d0 \<longrightarrow> payload_ok b (dict_update d0 [(''type'', AStr ''tagged'')])"
    by (simp add: payload_ok_tagged)
  have e: "payload_ok b []" by (simp add: payload_ok_def)
  show ?thesis using e c s t assms(2) by (rule edges_sat_generate)
qed

text \<open>
  C4, as stated, fails where the usage counts lag behind the files: with tags A and B of
  usage count 1 each and both on two files, the pair is counted twice and the strength of
  the edge A - B is 2 / 1 = 2.
\<close>

theorem strength_above_one:
  "wf_store store_low_usage \<and> no_repeated_tags store_low_usage \<and>
   generate store_low_usage ''tags'' nx_empty = Inr (build_tag_graph store_low_usage nx_empty) \<and>
   nx_get_edge_data (build_tag_graph store_low_usage nx_empty) ''A'' ''B'' =
     Some [(''weight'', AInt 2), (''strength'', AFloat 2), (''type'', AStr ''cooccurrence'')] \<and>
   \<not> in_unit_interval (Some (AFloat 2))"
proof -
  have a: "wf_store store_low_usage" by code_simp
  have b: "no_repeated_tags store_low_usage" by code_simp
  have c: "nx_get_edge_data (build_tag_graph store_low_usage nx_empty) ''A'' ''B'' =
     Some [(''weight'', AInt 2), (''strength'', AFloat 2), (''type'', AStr ''cooccurrence'')]"
    by code_simp
  show ?thesis using a b c by (simp add: generate_Inr in_unit_interval_def)
qed

text \<open>
  C4, amended. For every graph \<^verbatim>\<open>generate\<close> produces, in any mode: the weight of every
  similarity edge lies in \<open>[0, 1]\<close>; the strength of every cooccurrence edge is at least
  0, and it is at most 1 when no file lists a tag id twice and every tag's usage count is
  at least the number of files that carry the tag.
\<close>

theorem edge_payload_ranges:
  assumes "generate ds mode g0 = Inr g" "nx_get_edge_data g x y = Some d"
  shows "(map_of d ''type'' = Some (AStr ''similarity'') \<longrightarrow> in_unit_interval (map_of d ''weight'')) \<and>
     (map_of d ''type'' = Some (AStr ''cooccurrence'') \<longrightarrow>
        nonneg_number (map_of d ''strength'') \<and>
        (no_repeated_tags ds \<and> usage_covers_files ds \<longrightarrow> in_unit_interval (map_of d ''strength'')))"
proof -
  have "edges_sat (payload_ok (no_repeated_tags ds \<and> usage_covers_files ds)) g"
    by (rule payload_ok_generate [OF _ assms(1)])
  then have "payload_ok (no_repeated_tags ds \<and> usage_covers_files ds) d"
    using assms(2) unfolding edges_sat_def by blast
  then show ?thesis unfolding payload_ok_def by blast
qed

theorem edge_payload_ranges_witness:
  "generate store_abc ''full'' nx_empty = Inr graph_abc_full \<and>
   no_repeated_tags store_abc \<and> usage_covers_files store_abc \<and>
   nx_get_edge_data graph_abc_full ''A'' ''B'' =
     Some [(''weight'', AInt 2), (''strength'', AFloat (2 / 5)), (''type'', AStr ''cooccurrence'')] \<and>
   in_unit_interval (Some (AFloat (2 / 5))) \<and>
   nx_get_edge_data graph_abc_full ''F1'' ''F3'' =
     Some [(''weight'', AFloat (1 / 3)), (''type'', AStr ''similarity'')] \<and>
   in_unit_interval (Some (AFloat (1 / 3)))"
proof -
  have g: "generate store_abc ''full'' nx_empty = Inr graph_abc_full"
    by (simp add: generate_Inr graph_abc_full_def)
  have r: "no_repeated_tags store_abc" by code_simp
  have u: "usage_covers_files store_abc" by code_simp
  have a: "nx_get_edge_data graph_abc_full ''A'' ''B'' =
     Some [(''weight'', AInt 2), (''strength'', AFloat (2 / 5)), (''type'', AStr ''cooccurrence'')]"
    by code_simp
  have b: "nx_get_edge_data graph_abc_full ''F1'' ''F3'' =
     Some [(''weight'', AFloat (1 / 3)), (''type'', AStr ''similarity'')]"
    by code_simp
  show ?thesis
    using g r u a b edge_payload_ranges [OF g a] edge_payload_ranges [OF g b] by simp
qed

subsection \<open>Arguments that are not checked\<close>

lemma nx_degree_of:
  "n \<in> set (map fst (g_adj g)) \<Longrightarrow> nx_degree g n = Inr (degree_of g n)"
proof -
  assume "n \<in> set (map fst (g_adj g))"
  then obtain nbrs where "map_of (g_adj g) n = Some nbrs"
    by (cases "map_of (g_adj g) n") (auto simp: map_of_eq_None_iff)
  then show ?thesis by (simp add: nx_degree_def degree_of_def adj_of_def)
qed

lemma degree_loop:
  "set ns \<subseteq> set (map fst (g_adj g)) \<Longrightarrow>
   fold_err (\<lambda>n acc. case nx_degree g n of Inl e \<Rightarrow> Inl e | Inr d \<Rightarrow> Inr (acc @ [(n, d)])) ns acc
     = Inr (acc @ map (\<lambda>n. (n, degree_of g n)) ns)"
  by (induction ns arbitrary: acc) (simp_all add: nx_degree_of)

lemma degree_items_wf:
  "nx_wf g \<Longrightarrow> degree_items g = Inr (map (\<lambda>n. (n, degree_of g n)) (map fst (g_node g)))"
  unfolding degree_items_def using degree_loop [of "map fst (g_node g)" g "[]"]
  by (simp add: nx_wf_def)

lemma find_hubs_wf:
  "nx_wf g \<Longrightarrow> find_hubs g top_n =
     Inr (py_slice_to (sort_key (\<lambda>x. - int (snd x)) (map (\<lambda>n. (n, degree_of g n)) (map fst (g_node g)))) top_n)"
  by (simp add: find_hubs_def degree_items_wf)

text \<open>
  C2, as stated: \<^verbatim>\<open>generate\<close> with a mode outside tags, files and full, and
  \<^verbatim>\<open>find_hubs\<close> with a negative \<open>top_n\<close>, fail with an invalid-argument signal. The
  source has no such check: on the scenario's graph an unknown mode returns normally
  with an empty graph, and \<open>top_n = -1\<close> returns the ranking without its last entry.
\<close>

theorem bad_arguments_return_normally:
  "''bogus'' \<notin> set [''tags'', ''files'', ''full''] \<and>
   generate store_abc ''bogus'' graph_abc = Inr nx_empty \<and>
   find_hubs graph_abc (- 1) = Inr [(''A'', 1), (''B'', 1)]"
proof -
  have "find_hubs graph_abc (- 1) = Inr [(''A'', 1), (''B'', 1)]"
    by code_simp
  then show ?thesis by (simp add: generate_Inr)
qed

text \<open>
  C2, amended: \<^verbatim>\<open>generate\<close> called with a mode outside tags, files and full raises
  nothing: it clears the graph and returns with the empty graph. \<^verbatim>\<open>find_hubs\<close> called
  with a negative \<open>top_n\<close> raises nothing either: on a well-formed graph of \<open>N\<close> nodes
  it returns the first \<open>N - |top_n|\<close> entries of the ranking by descending degree.
\<close>

theorem bad_arguments_no_signal:
  assumes "nx_wf g"
  shows "(mode \<notin> set [''tags'', ''files'', ''full''] \<longrightarrow> generate ds mode g = Inr nx_empty) \<and>
         (top_n < 0 \<longrightarrow> find_hubs g top_n =
            Inr (take (length (g_node g) - nat (- top_n))
                  (sort_key (\<lambda>x. - int (snd x)) (map (\<lambda>n. (n, degree_of g n)) (map fst (g_node g))))))"
  using assms by (simp add: generate_Inr find_hubs_wf py_slice_to_def)

theorem bad_arguments_no_signal_witness:
  "nx_wf graph_abc \<and> ''bogus'' \<notin> set [''tags'', ''files'', ''full''] \<and>
   generate store_abc ''bogus'' graph_abc = Inr nx_empty \<and> (- 1 :: int) < 0 \<and>
   find_hubs graph_abc (- 1) =
     Inr (take (length (g_node graph_abc) - nat (- (- 1)))
           (sort_key (\<lambda>x. - int (snd x))
             (map (\<lambda>n. (n, degree_of graph_abc n)) (map fst (g_node graph_abc)))))"
proof -
  have a: "nx_wf graph_abc" by code_simp
  show ?thesis
    using a bad_arguments_no_signal [OF a, of "''bogus''" store_abc "- 1"] by simp
qed

subsection \<open>\<^verbatim>\<open>find_orphans\<close>\<close>

lemma node_data_of_node:
  "n \<in> set (map fst (g_node g)) \<Longrightarrow> \<exists>d. map_of (g_node g) n = Some d"
  by (cases "map_of (g_node g) n") (auto simp: map_of_eq_None_iff)

lemma orphan_step_wf:
  assumes "n \<in> set (map fst (g_adj g))" "n \<in> set (map fst (g_node g))"
  shows "orphan_step g node_type n acc =
     Inr (if degree_of g n \<le> 1 \<and> kind_matches g node_type n then acc @ [n] else acc)"
proof -
  obtain d where d: "map_of (g_node g) n = Some d"
    using node_data_of_node [OF assms(2)] by blast
  show ?thesis
    by (cases node_type)
      (simp_all add: orphan_step_def nx_degree_of [OF assms(1)] kind_matches_def
        nx_node_data_def node_type_of_def d)
qed

lemma orphan_loop:
  "set ns \<subseteq> set (map fst (g_adj g)) \<Longrightarrow> set ns \<subseteq> set (map fst (g_node g)) \<Longrightarrow>
   fold_err (orphan_step g node_type) ns acc
     = Inr (acc @ filter (\<lambda>n. degree_of g n \<le> 1 \<and> kind_matches g node_type n) ns)"
  by (induction ns arbitrary: acc) (simp_all add: orphan_step_wf)

text \<open>
  C6. For every graph and every optional node-kind filter, \<^verbatim>\<open>find_orphans\<close> returns
  exactly the nodes of that kind whose degree is at most 1, in node order: nodes of
  degree 1 are included, nodes of degree 2 or more never are. A graph is a well-formed
  one here, as \<^verbatim>\<open>networkx\<close> keeps it and as every graph that \<^verbatim>\<open>generate\<close>
  builds is (\<open>nx_wf_generate\<close>).
\<close>

theorem find_orphans_exact:
  assumes "nx_wf g"
  shows "find_orphans g node_type =
     Inr (filter (\<lambda>n. degree_of g n \<le> 1 \<and> kind_matches g node_type n) (map fst (g_node g)))"
  unfolding find_orphans_def
  using assms orphan_loop [of "map fst (g_node g)" g node_type "[]"]
  by (simp add: nx_wf_def)

theorem find_orphans_exact_witness:
  "nx_wf graph_abc \<and> degree_of graph_abc ''A'' = 1 \<and> degree_of graph_abc ''C'' = 0 \<and>
   find_orphans graph_abc None = Inr [''A'', ''B'', ''C''] \<and>
   find_orphans graph_abc None =
     Inr (filter (\<lambda>n. degree_of graph_abc n \<le> 1 \<and> kind_matches graph_abc None n)
       (map fst (g_node graph_abc))) \<and>
   nx_wf graph_abc_full \<and> degree_of graph_abc_full ''A'' = 5 \<and>
   degree_of graph_abc_full ''C'' = 1 \<and>
   find_orphans graph_abc_full (Some ''tag'') = Inr [''C''] \<and>
   find_orphans graph_abc_full (Some ''tag'') =
     Inr (filter (\<lambda>n. degree_of graph_abc_full n \<le> 1 \<and> kind_matches graph_abc_full (Some ''tag'') n)
       (map fst (g_node graph_abc_full)))"
proof -
  have a: "nx_wf graph_abc" by code_simp
  have b: "degree_of graph_abc ''A'' = 1" by code_simp
  have c: "degree_of graph_abc ''C'' = 0" by code_simp
  have d: "find_orphans graph_abc None = Inr [''A'', ''B'', ''C'']" by code_simp
  have a': "nx_wf graph_abc_full" by code_simp
  have b': "degree_of graph_abc_full ''A'' = 5" by code_simp
  have c': "degree_of graph_abc_full ''C'' = 1" by code_simp
  have d': "find_orphans graph_abc_full (Some ''tag'') = Inr [''C'']" by code_simp
  show ?thesis
    using a b c d a' b' c' d' find_orphans_exact [OF a, of None]
      find_orphans_exact [OF a', of "Some ''tag''"]
    by simp
qed

subsection \<open>\<^verbatim>\<open>recommend_tags\<close>\<close>

lemma score_neighbor_keys:
  assumes "score_neighbor g file t nb sc = Inr sc'" "fst ` set sc \<inter> set (tags file) = {}"
  shows "fst ` set sc' \<inter> set (tags file) = {}"
proof (cases "sc' = sc")
  case True
  then show ?thesis using assms(2) by simp
next
  case False
  then obtain s where "sc' = AList.update nb s sc" "nb \<notin> set (tags file)"
    using assms(1) by (auto simp: score_neighbor_def split: sum.splits if_splits)
  then show ?thesis using assms(2) by (simp add: dom_update)
qed

lemma score_tag_keys:
  assumes "score_tag g file t sc = Inr sc'" "fst ` set sc \<inter> set (tags file) = {}"
  shows "fst ` set sc' \<inter> set (tags file) = {}"
proof (cases "nx_has_node g t")
  case False
  then show ?thesis using assms by (simp add: score_tag_def)
next
  case True
  show ?thesis
  proof (cases "nx_neighbors g t")
    case (Inl e)
    then show ?thesis using assms(1) True by (simp add: score_tag_def)
  next
    case (Inr nbrs)
    then have n: "fold_err (score_neighbor g file t) nbrs sc = Inr sc'"
      using assms(1) True by (simp add: score_tag_def)
    show ?thesis
    proof (rule fold_err_invariant [OF n, where I = "\<lambda>s. fst ` set s \<inter> set (tags file) = {}"])
      show "fst ` set sc \<inter> set (tags file) = {}" by (rule assms(2))
    next
      fix x u u'
      assume h: "fst ` set u \<inter> set (tags file) = {}" "score_neighbor g file t x u = Inr u'"
      show "fst ` set u' \<inter> set (tags file) = {}"
        by (rule score_neighbor_keys [OF h(2) h(1)])
    qed
  qed
qed

lemma most_common_subset: "set (most_common c n) \<subseteq> set c"
proof -
  have "set (take (nat n) (sort_key (\<lambda>kv. - num_of (snd kv)) c))
      \<subseteq> set (sort_key (\<lambda>kv. - num_of (snd kv)) c)"
    by (rule set_take_subset)
  then show ?thesis by (simp add: most_common_def)
qed

text \<open>
  C7. For every graph, every file id and every \<open>top_n\<close>, no tag id that
  \<^verbatim>\<open>recommend_tags\<close> returns is in the tag list of the file. (That it does return
  on every graph \<^verbatim>\<open>generate\<close> built is \<open>recommend_tags_generated\<close> below.)
\<close>

theorem recommend_tags_excludes_own_tags:
  assumes "get_file ds fid = Some file" "recommend_tags ds g fid top_n = Inr recs"
  shows "set (map fst recs) \<inter> set (tags file) = {}"
proof (cases "fold_err (score_tag g file) (tags file) []")
  case (Inl e)
  then show ?thesis using assms by (simp add: recommend_tags_def)
next
  case (Inr sc)
  then have recs: "recs = most_common sc top_n"
    using assms by (simp add: recommend_tags_def)
  have "fst ` set sc \<inter> set (tags file) = {}"
  proof (rule fold_err_invariant [OF Inr, where I = "\<lambda>s. fst ` set s \<inter> set (tags file) = {}"])
    show "fst ` set [] \<inter> set (tags file) = {}" by simp
  next
    fix x u u'
    assume h: "fst ` set u \<inter> set (tags file) = {}" "score_tag g file x u = Inr u'"
    show "fst ` set u' \<inter> set (tags file) = {}"
      by (rule score_tag_keys [OF h(2) h(1)])
  qed
  moreover have "fst ` set recs \<subseteq> fst ` set sc"
    using most_common_subset [of sc top_n] recs by (simp add: image_mono)
  ultimately have "fst ` set recs \<inter> set (tags file) = {}" by blast
  then show ?thesis by simp
qed

theorem recommend_tags_excludes_own_tags_witness:
  "get_file store_abc ''F4'' = Some (snd (mk_file ''F4'' [''A''])) \<and>
   recommend_tags store_abc graph_abc ''F4'' 5 = Inr [(''B'', AInt 2)] \<and>
   set (map fst [(''B'', AInt 2)]) \<inter> set (tags (snd (mk_file ''F4'' [''A'']))) = {}"
proof -
  have a: "get_file store_abc ''F4'' = Some (snd (mk_file ''F4'' [''A'']))"
    by code_simp
  have b: "recommend_tags store_abc graph_abc ''F4'' 5 = Inr [(''B'', AInt 2)]"
    by code_simp
  show ?thesis
    using a b recommend_tags_excludes_own_tags [OF a b] by simp
qed

text \<open>
  C8. \<^verbatim>\<open>recommend_tags\<close> returns the empty list, and raises nothing, when the file id
  is not in the store or when the file's tag list is empty; this holds for every graph
  and every \<open>top_n\<close>.
\<close>

theorem recommend_tags_empty_result:
  assumes "get_file ds fid = None \<or> map_option tags (get_file ds fid) = Some []"
  shows "recommend_tags ds g fid top_n = Inr []"
  using assms by (auto simp: recommend_tags_def most_common_def split: option.splits)

theorem recommend_tags_empty_result_witness:
  "get_file store_abc ''F9'' = None \<and>
   recommend_tags store_abc graph_abc ''F9'' 5 = Inr [] \<and>
   map_option tags (get_file (one_file_store []) ''F1'') = Some [] \<and>
   recommend_tags (one_file_store []) graph_abc ''F1'' 5 = Inr []"
proof -
  have a: "get_file store_abc ''F9'' = None"
    by (simp add: get_file_def store_abc_def mk_file_def)
  have b: "map_option tags (get_file (one_file_store []) ''F1'') = Some []"
    by (simp add: get_file_def one_file_store_def mk_file_def)
  show ?thesis
    using a b recommend_tags_empty_result [of store_abc "''F9''" graph_abc 5]
      recommend_tags_empty_result [of "one_file_store []" "''F1''" graph_abc 5]
    by simp
qed

text \<open>On a graph that \<^verbatim>\<open>generate\<close> built, \<^verbatim>\<open>recommend_tags\<close> raises nothing.\<close>

lemma weight_numeric_generate:
  assumes "generate ds mode g0 = Inr g"
  shows "edges_sat weight_numeric g"
proof -
  have e: "weight_numeric []" by (simp add: weight_numeric_def)
  have c: "\<forall>item t1 t2 d0. item \<in> set (tag_cooccurrence ds) \<longrightarrow> 2 \<le> snd item \<longrightarrow>
          get_tag ds (fst (fst item)) = Some t1 \<longrightarrow> get_tag ds (snd (fst item)) = Some t2 \<longrightarrow>
          weight_numeric d0 \<longrightarrow> weight_numeric (dict_update d0 (cooccurrence_attrs (snd item) t1 t2))"
    by (simp add: weight_numeric_def cooccurrence_attrs_def map_of_dict_update3 numeric_def)
  have s: "\<forall>f1 f2 d0. weight_numeric d0 \<longrightarrow>
      weight_numeric (dict_update d0 (similarity_attrs (calculate_tag_similarity f1 f2)))"
    by (simp add: weight_numeric_def similarity_attrs_def map_of_dict_update2 numeric_def)
  have t: "\<forall>d0. weight_numeric d0 \<longrightarrow> weight_numeric (dict_update d0 [(''type'', AStr ''tagged'')])"
    by (simp add: weight_numeric_def map_of_dict_update1)
  show ?thesis using e c s t assms by (rule edges_sat_generate)
qed

lemma fold_err_total:
  assumes "I s" "\<And>x t. x \<in> set xs \<Longrightarrow> I t \<Longrightarrow> \<exists>t'. f x t = Inr t' \<and> I t'"
  shows "\<exists>s'. fold_err f xs s = Inr s' \<and> I s'"
  using assms
proof (induction xs arbitrary: s)
  case Nil
  then show ?case by simp
next
  case (Cons x xs)
  obtain t where t: "f x s = Inr t" "I t"
    using Cons.prems(2) [of x s] Cons.prems(1) by auto
  have "\<exists>s'. fold_err f xs t = Inr s' \<and> I s'"
    using t(2) Cons.prems(2) by (intro Cons.IH) simp_all
  then show ?case using t(1) by simp
qed

lemma py_add_numeric: "numeric a \<Longrightarrow> numeric b \<Longrightarrow> \<exists>c. py_add a b = Inr c \<and> numeric c"
  by (cases a; cases b) (simp_all add: numeric_def)

lemma edge_weight_numeric:
  assumes "edges_sat weight_numeric g"
  shows "numeric (edge_weight (nx_get_edge_data g t nb))"
proof (cases "nx_get_edge_data g t nb")
  case None
  then show ?thesis by (simp add: edge_weight_def numeric_def)
next
  case (Some d)
  then have "weight_numeric d" using assms unfolding edges_sat_def by blast
  then show ?thesis using Some
    by (simp add: edge_weight_def weight_numeric_def numeric_def split: option.splits)
qed

lemma scores_numeric_lookup:
  "scores_numeric sc \<Longrightarrow> numeric (case map_of sc k of None \<Rightarrow> AInt 0 | Some s \<Rightarrow> s)"
proof (cases "map_of sc k")
  case None
  then show ?thesis by (simp add: numeric_def)
next
  case (Some v)
  assume "scores_numeric sc"
  moreover have "(k, v) \<in> set sc" using Some by (rule map_of_SomeD)
  ultimately show ?thesis using Some unfolding scores_numeric_def list_all_iff by force
qed

lemma scores_numeric_update:
  assumes "scores_numeric sc" "numeric v"
  shows "scores_numeric (AList.update k v sc)"
  using assms set_update_subset [of k v sc]
  unfolding scores_numeric_def list_all_iff by auto

lemma score_neighbor_total:
  assumes "nb \<in> fst ` set (g_node g)" "edges_sat weight_numeric g" "scores_numeric sc"
  shows "\<exists>sc'. score_neighbor g file t nb sc = Inr sc' \<and> scores_numeric sc'"
proof -
  obtain d where d: "map_of (g_node g) nb = Some d"
    using assms(1) by (cases "map_of (g_node g) nb") (auto simp: map_of_eq_None_iff)
  obtain c where c: "py_add (case map_of sc nb of None \<Rightarrow> AInt 0 | Some s \<Rightarrow> s)
      (edge_weight (nx_get_edge_data g t nb)) = Inr c" "numeric c"
    using py_add_numeric [OF scores_numeric_lookup [OF assms(3)] edge_weight_numeric [OF assms(2)]]
    by blast
  show ?thesis
    using d c assms(3) by (simp add: score_neighbor_def nx_node_data_def scores_numeric_update)
qed

lemma score_tag_total:
  assumes "nx_wf g" "edges_sat weight_numeric g" "scores_numeric sc"
  shows "\<exists>sc'. score_tag g file t sc = Inr sc' \<and> scores_numeric sc'"
proof (cases "nx_has_node g t")
  case False
  then show ?thesis using assms(3) by (simp add: score_tag_def)
next
  case True
  then have "t \<in> fst ` set (g_adj g)"
    using assms(1) by (simp add: has_node_keys nx_wf_iff)
  then obtain nbrs where n: "map_of (g_adj g) t = Some nbrs"
    by (cases "map_of (g_adj g) t") (auto simp: map_of_eq_None_iff)
  have "nbrs_ok g (adj_of g t)" by (rule nbrs_ok_adj_of [OF assms(1)])
  then have k: "set (map fst nbrs) \<subseteq> fst ` set (g_node g)"
    using n by (simp add: adj_of_def nbrs_ok_def)
  have "\<exists>sc'. fold_err (score_neighbor g file t) (map fst nbrs) sc = Inr sc' \<and> scores_numeric sc'"
  proof (rule fold_err_total [where I = scores_numeric, OF assms(3)])
    fix x u
    assume "x \<in> set (map fst nbrs)" "scores_numeric u"
    then show "\<exists>t'. score_neighbor g file t x u = Inr t' \<and> scores_numeric t'"
      using k by (intro score_neighbor_total [OF _ assms(2)]) auto
  qed
  then show ?thesis using True n by (simp add: score_tag_def nx_neighbors_def)
qed

lemma recommend_tags_total:
  assumes "nx_wf g" "edges_sat weight_numeric g"
  shows "\<exists>recs. recommend_tags ds g fid top_n = Inr recs"
proof (cases "get_file ds fid")
  case None
  then show ?thesis by (simp add: recommend_tags_def)
next
  case (Some fl)
  have "\<exists>sc'. fold_err (score_tag g fl) (tags fl) [] = Inr sc' \<and> scores_numeric sc'"
  proof (rule fold_err_total [where I = scores_numeric])
    show "scores_numeric []" by (simp add: scores_numeric_def)
  next
    fix x u
    assume "scores_numeric u"
    then show "\<exists>t'. score_tag g fl x u = Inr t' \<and> scores_numeric t'"
      by (rule score_tag_total [OF assms])
  qed
  then show ?thesis using Some by (auto simp: recommend_tags_def)
qed

lemma recommend_tags_generated:
  "generate ds mode g0 = Inr g \<Longrightarrow> \<exists>recs. recommend_tags ds' g fid top_n = Inr recs"
  by (rule recommend_tags_total [OF nx_wf_generate weight_numeric_generate])

subsection \<open>\<^verbatim>\<open>get_stats\<close> on the empty graph\<close>

lemma get_stats_keys_nonempty:
  assumes "nx_wf g" "g_node g \<noteq> []"
  shows "\<exists>stats. get_stats g = Inr stats \<and>
     map fst stats = [''total_nodes'', ''total_edges'', ''tag_nodes'', ''file_nodes'',
       ''avg_degree'', ''density'', ''connected_components'']"
  using assms by (simp add: get_stats_def degree_items_wf Let_def)

text \<open>
  C3. On the empty graph, as \<^verbatim>\<open>generate\<close> leaves it for an empty store,
  \<^verbatim>\<open>get_stats\<close> returns six fields, all zero, and no \<^verbatim>\<open>connected_components\<close>
  field; the branch for a graph with nodes returns all seven.
\<close>

theorem get_stats_empty_graph_six_fields:
  "generate store_empty ''tags'' nx_empty = Inr nx_empty \<and>
   get_stats nx_empty =
     Inr [(''total_nodes'', AInt 0), (''total_edges'', AInt 0), (''tag_nodes'', AInt 0),
          (''file_nodes'', AInt 0), (''avg_degree'', AInt 0), (''density'', AInt 0)] \<and>
   map_of [(''total_nodes'', AInt 0), (''total_edges'', AInt 0), (''tag_nodes'', AInt 0),
           (''file_nodes'', AInt 0), (''avg_degree'', AInt 0), (''density'', AInt 0)]
     ''connected_components'' = None"
proof -
  have "build_tag_graph store_empty nx_empty = nx_empty"
    by (simp add: build_tag_graph_def add_tag_nodes_def tag_cooccurrence_def store_empty_def)
  then show ?thesis
    by (simp add: generate_Inr get_stats_def nx_empty_def)
qed

end
